theory Spec2Isabelle
  imports Complex_Main
begin

section \<open>The typing trainer of main.go\<close>

text \<open>
  The program is a terminal typing trainer: \<open>NewModel\<close> flattens a word list into the
  text to type, \<open>Update\<close> consumes one message of the event loop at a time, and
  \<open>Quit\<close> closes the session and computes the statistics.

  Conventions of the embedding.
  \<^item> A Go \<open>string\<close> is a \<open>char list\<close> of bytes. The text is taken to be ASCII, so
    that the byte index that \<open>m.chars[i]\<close> uses and the rune index that
    \<open>range m.chars\<close> yields coincide.
  \<^item> A panic of the Go program (an explicit \<open>panic\<close> or an index out of range) is a
    value \<open>Inl e\<close> of the result type \<open>error + 'a\<close>.
  \<^item> \<open>float64\<close> values are exact reals, with the three non-finite results of a
    division by zero kept apart (\<open>PosInf\<close>, \<open>NegInf\<close>, \<open>NaN\<close>); rounding is
    not modelled.
  \<^item> \<open>m.current\<close> is a \<open>nat\<close>: it starts at 0 and is only ever incremented below
    \<open>len(m.chars)\<close>.
  \<^item> The method \<open>Update\<close> has a value receiver, and \<open>Quit\<close> a pointer receiver on
    that copy: both are functions from the old model to the new one. The slice
    \<open>m.inputs\<close> shares its array with the caller's copy, which the event loop
    replaces by the returned model and never reads again.
\<close>

subsection \<open>Constants and types (main.go, lines 32-51)\<close>

datatype Status = Neutral | Good | Bad

text \<open>The integer behind each status: \<open>Neutral = -1\<close>, \<open>Good = 1\<close>, \<open>Bad = 0\<close>.\<close>

fun Status_int :: "Status \<Rightarrow> int" where
  "Status_int Neutral = - 1"
| "Status_int Good = 1"
| "Status_int Bad = 0"

definition ok_inputs :: string where
  "ok_inputs = '' abcdefghijklmnopqrstuvwxyz''"

datatype error = Panic string | IndexOutOfRange

datatype float64 = Finite real | PosInf | NegInf | NaN

text \<open>Division of two finite numbers, as IEEE 754 defines it when the divisor is zero.\<close>

definition float64_div :: "real \<Rightarrow> real \<Rightarrow> float64" where
  "float64_div x y =
     (if y \<noteq> 0 then Finite (x / y)
      else if 0 < x then PosInf
      else if x < 0 then NegInf
      else NaN)"

text \<open>Multiplication by a positive finite constant (\<open>accuracy*100\<close>).\<close>

fun float64_scale :: "float64 \<Rightarrow> real \<Rightarrow> float64" where
  "float64_scale (Finite x) k = Finite (x * k)"
| "float64_scale PosInf k = PosInf"
| "float64_scale NegInf k = NegInf"
| "float64_scale NaN k = NaN"

subsection \<open>The stopwatch component\<close>

text \<open>
  \<open>stopwatch.Model\<close> belongs to the imported package
  \<open>github.com/charmbracelet/bubbles/stopwatch\<close>. Its state is the accumulated duration
  (nanoseconds), an identifier, a tick tag, the running flag and the tick interval.
  \<open>Start\<close> and \<open>Stop\<close> have value receivers and only build a command for the event
  loop; the flag changes when the resulting \<open>StartStopMsg\<close> comes back through the
  stopwatch's own \<open>Update\<close>, and the duration grows by one interval per accepted tick.
\<close>

record stopwatch_Model =
  sw_d :: nat
  sw_id :: nat
  sw_tag :: nat
  sw_running :: bool
  sw_Interval :: nat

datatype Msg =
    KeyMsg string
  | StartStopMsg nat bool
  | ResetMsg nat
  | TickMsg nat nat
  | OtherMsg

datatype Cmd = Cmd_nil | tea_Quit | Cmd_Start nat | Cmd_Stop nat | Cmd_tick nat nat

definition stopwatch_NewWithInterval :: "nat \<Rightarrow> nat \<Rightarrow> stopwatch_Model" where
  "stopwatch_NewWithInterval interval nextID =
     \<lparr>sw_d = 0, sw_id = nextID, sw_tag = 0, sw_running = False, sw_Interval = interval\<rparr>"

definition Running :: "stopwatch_Model \<Rightarrow> bool" where
  "Running sw = sw_running sw"

definition Elapsed :: "stopwatch_Model \<Rightarrow> nat" where
  "Elapsed sw = sw_d sw"

definition Start :: "stopwatch_Model \<Rightarrow> Cmd" where
  "Start sw = Cmd_Start (sw_id sw)"

definition Stop :: "stopwatch_Model \<Rightarrow> Cmd" where
  "Stop sw = Cmd_Stop (sw_id sw)"

fun stopwatch_Update :: "stopwatch_Model \<Rightarrow> Msg \<Rightarrow> stopwatch_Model \<times> Cmd" where
  "stopwatch_Update sw (StartStopMsg i r) =
     (if i \<noteq> sw_id sw then (sw, Cmd_nil) else (sw\<lparr>sw_running := r\<rparr>, Cmd_nil))"
| "stopwatch_Update sw (ResetMsg i) =
     (if i \<noteq> sw_id sw then (sw, Cmd_nil) else (sw\<lparr>sw_d := 0\<rparr>, Cmd_nil))"
| "stopwatch_Update sw (TickMsg i t) =
     (if \<not> sw_running sw \<or> i \<noteq> sw_id sw then (sw, Cmd_nil)
      else if 0 < t \<and> t \<noteq> sw_tag sw then (sw, Cmd_nil)
      else (sw\<lparr>sw_d := sw_d sw + sw_Interval sw, sw_tag := sw_tag sw + 1\<rparr>,
            Cmd_tick (sw_id sw) (sw_tag sw + 1)))"
| "stopwatch_Update sw (KeyMsg k) = (sw, Cmd_nil)"
| "stopwatch_Update sw OtherMsg = (sw, Cmd_nil)"

text \<open>\<open>time.Duration\<close> counts nanoseconds.\<close>

definition Minutes :: "nat \<Rightarrow> real" where
  "Minutes dur = real dur / 60000000000"

definition Seconds :: "nat \<Rightarrow> real" where
  "Seconds dur = real dur / 1000000000"

subsection \<open>The model (main.go, lines 43-51)\<close>

text \<open>
  \<open>stats\<close> is the text that \<open>fmt.Sprintf\<close> renders from four values. The record keeps
  those four arguments: \<open>None\<close> is the empty string the model starts with, and a
  rendered summary is never empty, since the format has literal text.
\<close>

datatype Summary = Sprintf nat real float64 float64

fun summary_words :: "Summary \<Rightarrow> nat" where
  "summary_words (Sprintf n s w a) = n"

fun summary_seconds :: "Summary \<Rightarrow> real" where
  "summary_seconds (Sprintf n s w a) = s"

fun summary_wpm :: "Summary \<Rightarrow> float64" where
  "summary_wpm (Sprintf n s w a) = w"

fun summary_accuracy :: "Summary \<Rightarrow> float64" where
  "summary_accuracy (Sprintf n s w a) = a"

record Model =
  chars :: string
  words :: "string list"
  inputs :: "Status list"
  current :: nat
  quitting :: bool
  time :: stopwatch_Model
  stats :: "Summary option"

subsection \<open>Library functions on strings\<close>

text \<open>\<open>strings.Join\<close> and \<open>strings.Contains\<close> of the Go standard library.\<close>

fun strings_Join :: "string list \<Rightarrow> string \<Rightarrow> string" where
  "strings_Join [] sep = []"
| "strings_Join [w] sep = w"
| "strings_Join (w # v # ws) sep = w @ sep @ strings_Join (v # ws) sep"

fun strings_Contains :: "string \<Rightarrow> string \<Rightarrow> bool" where
  "strings_Contains [] substr = (substr = [])"
| "strings_Contains (c # s) substr =
     (take (length substr) (c # s) = substr \<or> strings_Contains s substr)"

subsection \<open>Word wrapping\<close>

text \<open>
  \<open>wordwrap.String\<close> belongs to the imported package
  \<open>github.com/muesli/reflow/wordwrap\<close>; \<open>NewModel\<close> below takes the wrapping function
  as its parameter \<open>wrap\<close>. The definitions of this subsection follow the package's
  writer for ASCII text, to have the function at hand for concrete runs: characters
  are collected into a word buffer, white space into a space buffer, and when the
  pending word would run over the limit the writer emits a newline and drops the
  pending white space.
\<close>

record WordWrap =
  ww_Limit :: nat
  ww_buf :: string
  ww_space :: string
  ww_word :: string
  ww_lineLen :: nat
  ww_ansi :: bool

definition newline :: char where
  "newline = CHR 0x0A"

definition NewWriter :: "nat \<Rightarrow> WordWrap" where
  "NewWriter limit =
     \<lparr>ww_Limit = limit, ww_buf = [], ww_space = [], ww_word = [], ww_lineLen = 0,
      ww_ansi = False\<rparr>"

definition IsTerminator :: "char \<Rightarrow> bool" where
  "IsTerminator c =
     ((0x40 \<le> (of_char c :: nat) \<and> (of_char c :: nat) \<le> 0x5a) \<or>
      (0x61 \<le> (of_char c :: nat) \<and> (of_char c :: nat) \<le> 0x7a))"

definition RuneWidth :: "char \<Rightarrow> nat" where
  "RuneWidth c = (if (of_char c :: nat) < 0x20 \<or> (of_char c :: nat) = 0x7f then 0 else 1)"

fun PrintableRuneWidth_loop :: "string \<Rightarrow> bool \<Rightarrow> nat \<Rightarrow> nat" where
  "PrintableRuneWidth_loop [] a n = n"
| "PrintableRuneWidth_loop (c # s) a n =
     (if c = CHR 0x1B then PrintableRuneWidth_loop s True n
      else if a then PrintableRuneWidth_loop s (\<not> IsTerminator c) n
      else PrintableRuneWidth_loop s a (n + RuneWidth c))"

definition PrintableRuneWidth :: "string \<Rightarrow> nat" where
  "PrintableRuneWidth s = PrintableRuneWidth_loop s False 0"

definition IsSpace :: "char \<Rightarrow> bool" where
  "IsSpace c = (c \<in> {CHR 0x09, CHR 0x0A, CHR 0x0B, CHR 0x0C, CHR 0x0D, CHR '' ''})"

definition addSpace :: "WordWrap \<Rightarrow> WordWrap" where
  "addSpace w =
     w\<lparr>ww_lineLen := ww_lineLen w + length (ww_space w),
       ww_buf := ww_buf w @ ww_space w,
       ww_space := []\<rparr>"

definition addWord :: "WordWrap \<Rightarrow> WordWrap" where
  "addWord w =
     (if 0 < length (ww_word w) then
        (let w1 = addSpace w in
         w1\<lparr>ww_lineLen := ww_lineLen w1 + PrintableRuneWidth (ww_word w1),
            ww_buf := ww_buf w1 @ ww_word w1,
            ww_word := []\<rparr>)
      else w)"

definition addNewLine :: "WordWrap \<Rightarrow> WordWrap" where
  "addNewLine w = w\<lparr>ww_buf := ww_buf w @ [newline], ww_lineLen := 0, ww_space := []\<rparr>"

definition Write_rune :: "WordWrap \<Rightarrow> char \<Rightarrow> WordWrap" where
  "Write_rune w c =
     (if c = CHR 0x1B then w\<lparr>ww_word := ww_word w @ [c], ww_ansi := True\<rparr>
      else if ww_ansi w then
        w\<lparr>ww_word := ww_word w @ [c], ww_ansi := \<not> IsTerminator c\<rparr>
      else if c = newline then
        (let w1 =
           (if length (ww_word w) = 0 then
              (if ww_Limit w < ww_lineLen w + length (ww_space w)
               then w\<lparr>ww_lineLen := 0, ww_space := []\<rparr>
               else w\<lparr>ww_buf := ww_buf w @ ww_space w, ww_space := []\<rparr>)
            else w)
         in addNewLine (addWord w1))
      else if IsSpace c then
        (let w1 = addWord w in w1\<lparr>ww_space := ww_space w1 @ [c]\<rparr>)
      else if c = CHR ''-'' then
        (let w1 = addWord (addSpace w) in
         w1\<lparr>ww_buf := ww_buf w1 @ [c], ww_lineLen := ww_lineLen w1 + 1\<rparr>)
      else
        (let w1 = w\<lparr>ww_word := ww_word w @ [c]\<rparr> in
         if ww_Limit w1 < ww_lineLen w1 + length (ww_space w1) + PrintableRuneWidth (ww_word w1)
            \<and> PrintableRuneWidth (ww_word w1) < ww_Limit w1
         then addNewLine w1 else w1))"

definition Write :: "WordWrap \<Rightarrow> string \<Rightarrow> WordWrap" where
  "Write w b = (if ww_Limit w = 0 then w\<lparr>ww_buf := ww_buf w @ b\<rparr> else foldl Write_rune w b)"

definition Close :: "WordWrap \<Rightarrow> WordWrap" where
  "Close w = addWord w"

definition wordwrap_String :: "string \<Rightarrow> nat \<Rightarrow> string" where
  "wordwrap_String s limit = ww_buf (Close (Write (NewWriter limit) s))"

subsection \<open>NewModel (main.go, lines 53-68)\<close>

text \<open>
  \<open>wrap\<close> is the wrapping function, \<open>term_size\<close> the answer of \<open>term.GetSize(0)\<close>
  (\<open>None\<close> when it reports an error), \<open>nextID\<close> the identifier the stopwatch
  package hands out. The stopwatch ticks every millisecond.
\<close>

definition NewModel ::
  "(string \<Rightarrow> nat \<Rightarrow> string) \<Rightarrow> nat option \<Rightarrow> nat \<Rightarrow> string list \<Rightarrow> error + Model" where
  "NewModel wrap term_size nextID ws =
     (case term_size of
        None \<Rightarrow> Inl (Panic ''Couldn't get terminal size.'')
      | Some w \<Rightarrow>
          (let s = wrap (strings_Join ws '' '') w in
           if length s = 0 then Inl (Panic ''Model creation error : zero words provided'')
           else Inr \<lparr>chars = s, words = ws, inputs = replicate (length s) Neutral,
                     current = 0, quitting = False,
                     time = stopwatch_NewWithInterval 1000000 nextID, stats = None\<rparr>))"

subsection \<open>Quit (main.go, lines 127-166)\<close>

text \<open>
  The first loop of \<open>Quit\<close>: \<open>index\<close> runs over the text, \<open>typed\<close> collects the
  verdicts of the words closed by a space, \<open>flag\<close> is the verdict of the word being read.
\<close>

fun typed_scan ::
  "Status list \<Rightarrow> nat \<Rightarrow> string \<Rightarrow> Status list \<Rightarrow> Status \<Rightarrow> error + (Status list \<times> Status)" where
  "typed_scan inp index [] typed flag = Inr (typed, flag)"
| "typed_scan inp index (curr_char # rest) typed flag =
     (if [curr_char] = '' '' then typed_scan inp (Suc index) rest (typed @ [flag]) Good
      else if index < length inp then
        typed_scan inp (Suc index) rest typed (if inp ! index \<noteq> Good then Bad else flag)
      else Inl IndexOutOfRange)"

text \<open>The loop followed by the final \<open>typed = append(typed, flag)\<close>.\<close>

definition word_verdicts :: "string \<Rightarrow> Status list \<Rightarrow> error + Status list" where
  "word_verdicts cs inp =
     (case typed_scan inp 0 cs [] Good of
        Inl e \<Rightarrow> Inl e
      | Inr (typed, flag) \<Rightarrow> Inr (typed @ [flag]))"

text \<open>
  The second loop: for every \<open>Good\<close> verdict one more word, and the length of
  \<open>m.words[index]\<close> more characters. The result is
  \<open>(length_typed_chars, length_typed_words)\<close>.
\<close>

fun count_typed ::
  "string list \<Rightarrow> nat \<Rightarrow> Status list \<Rightarrow> nat \<Rightarrow> nat \<Rightarrow> error + (nat \<times> nat)" where
  "count_typed ws index [] length_typed_chars length_typed_words =
     Inr (length_typed_chars, length_typed_words)"
| "count_typed ws index (status # rest) length_typed_chars length_typed_words =
     (if status = Good then
        (if index < length ws then
           count_typed ws (Suc index) rest
             (length_typed_chars + length (ws ! index)) (length_typed_words + 1)
         else Inl IndexOutOfRange)
      else count_typed ws (Suc index) rest length_typed_chars length_typed_words)"

text \<open>The third loop: \<open>for index := range m.current { accuracy += float64(m.inputs[index]) }\<close>.\<close>

function accuracy_loop :: "Status list \<Rightarrow> nat \<Rightarrow> nat \<Rightarrow> real \<Rightarrow> error + real" where
  "accuracy_loop inp cur index accuracy =
     (if index < cur then
        (if index < length inp then
           accuracy_loop inp cur (Suc index) (accuracy + real_of_int (Status_int (inp ! index)))
         else Inl IndexOutOfRange)
      else Inr accuracy)"
  by pat_completeness auto
termination
  by (relation "measure (\<lambda>(inp, cur, index, accuracy). cur - index)") auto

declare accuracy_loop.simps [simp del]

text \<open>The two loops together: \<open>(length_typed_chars, length_typed_words)\<close> of a model.\<close>

definition typed_counts :: "Model \<Rightarrow> error + (nat \<times> nat)" where
  "typed_counts m =
     (case word_verdicts (chars m) (inputs m) of
        Inl e \<Rightarrow> Inl e
      | Inr typed \<Rightarrow> count_typed (words m) 0 typed 0 0)"

text \<open>
  \<open>Quit\<close> sets the flag and returns at once unless the stopwatch is running. The
  command that \<open>m.time.Stop()\<close> builds is dropped (\<open>dropped\<close> below), so the
  stopwatch is left as it is.
\<close>

definition Quit :: "Model \<Rightarrow> error + Model" where
  "Quit m0 =
     (let m = m0\<lparr>quitting := True\<rparr> in
      if \<not> Running (time m) then Inr m
      else
        (let dropped = Stop (time m) in
         case typed_counts m of
           Inl e \<Rightarrow> Inl e
         | Inr (length_typed_chars, length_typed_words) \<Rightarrow>
            (let wpm = float64_div (real length_typed_chars)
                         (5 * Minutes (Elapsed (time m))) in
             case accuracy_loop (inputs m) (current m) 0 0 of
               Inl e \<Rightarrow> Inl e
             | Inr acc \<Rightarrow>
                (let accuracy = float64_div acc (real (current m)) in
                 Inr (m\<lparr>stats :=
                        Some (Sprintf length_typed_words (Seconds (Elapsed (time m)))
                                wpm (float64_scale accuracy 100))\<rparr>)))))"

subsection \<open>Update (main.go, lines 172-206)\<close>

text \<open>
  The end of \<open>Update\<close>: when no command is pending the message goes on to the stopwatch.
\<close>

definition Update_tail :: "Model \<Rightarrow> Cmd \<Rightarrow> Msg \<Rightarrow> error + (Model \<times> Cmd)" where
  "Update_tail m cmd msg =
     (if cmd = Cmd_nil then
        (case stopwatch_Update (time m) msg of (t, c) \<Rightarrow> Inr (m\<lparr>time := t\<rparr>, c))
      else Inr (m, cmd))"

definition Update :: "Model \<Rightarrow> Msg \<Rightarrow> error + (Model \<times> Cmd)" where
  "Update m msg =
     (case msg of
        KeyMsg key \<Rightarrow>
          if key = ''ctrl+c'' \<or> key = ''esc'' then
            (case Quit m of Inl e \<Rightarrow> Inl e | Inr m' \<Rightarrow> Inr (m', tea_Quit))
          else if strings_Contains ok_inputs key then
            (let cmd = (if current m = 0 \<and> \<not> Running (time m) then Start (time m)
                        else Cmd_nil) in
             if current m < length (chars m) then
               (let status = (if [chars m ! current m] = key then Good else Bad) in
                if current m < length (inputs m) then
                  (let m1 = m\<lparr>inputs := (inputs m)[current m := status]\<rparr> in
                   if current m1 = length (chars m1) - 1 then
                     (case Quit m1 of Inl e \<Rightarrow> Inl e | Inr m' \<Rightarrow> Inr (m', tea_Quit))
                   else Update_tail (m1\<lparr>current := current m1 + 1\<rparr>) cmd msg)
                else Inl IndexOutOfRange)
             else Inl IndexOutOfRange)
          else Update_tail m Cmd_nil msg
      | _ \<Rightarrow> Update_tail m Cmd_nil msg)"

text \<open>
  The event loop hands the messages to \<open>Update\<close> one after the other; a panic ends
  the run.
\<close>

fun run :: "Model \<Rightarrow> Msg list \<Rightarrow> error + Model" where
  "run m [] = Inr m"
| "run m (msg # msgs) =
     (case Update m msg of Inl e \<Rightarrow> Inl e | Inr (m', cmd) \<Rightarrow> run m' msgs)"

section \<open>Notions used to state the properties\<close>

subsection \<open>Words of the text and their verdicts\<close>

text \<open>
  The text paired with the statuses, cut at every space (as \<open>strings.Split\<close> would
  cut it: \<open>n\<close> spaces give \<open>n + 1\<close> segments, some possibly empty), and the
  verdict of a segment: \<open>Good\<close> when every character of it has status \<open>Good\<close>.
\<close>

fun space_segments :: "(char \<times> Status) list \<Rightarrow> (char \<times> Status) list list" where
  "space_segments [] = [[]]"
| "space_segments (p # ps) =
     (if fst p = CHR '' '' then [] # space_segments ps
      else (p # hd (space_segments ps)) # tl (space_segments ps))"

definition segment_verdict :: "(char \<times> Status) list \<Rightarrow> Status" where
  "segment_verdict seg = (if list_all (\<lambda>p. snd p = Good) seg then Good else Bad)"

text \<open>The verdicts of a scan that starts in the middle of a word whose flag is \<open>flag\<close>.\<close>

fun with_flag :: "Status \<Rightarrow> Status list \<Rightarrow> Status list" where
  "with_flag flag [] = []"
| "with_flag flag (v # vs) = (if v = Good then flag else Bad) # vs"

text \<open>The words whose verdict is \<open>Good\<close>, verdict \<open>i\<close> belonging to word \<open>i\<close>.\<close>

definition good_words :: "Status list \<Rightarrow> string list \<Rightarrow> string list" where
  "good_words typed ws = map snd (filter (\<lambda>p. fst p = Good) (zip typed ws))"

text \<open>The sum of the status values over the indices below the cursor.\<close>

definition status_sum :: "Status list \<Rightarrow> nat \<Rightarrow> real" where
  "status_sum inp cur = (\<Sum>i<cur. real_of_int (Status_int (inp ! i)))"

text \<open>The summary of a model, in closed form.\<close>

definition summary_of :: "Model \<Rightarrow> Summary" where
  "summary_of m =
     (let gw = good_words (map segment_verdict (space_segments (zip (chars m) (inputs m))))
                 (words m)
      in Sprintf (length gw) (Seconds (Elapsed (time m)))
           (float64_div (real (sum_list (map length gw))) (5 * Minutes (Elapsed (time m))))
           (float64_scale (float64_div (status_sum (inputs m) (current m)) (real (current m)))
              100))"

subsection \<open>Spaces\<close>

text \<open>The number of spaces of a text, and of what a wrapping writer holds.\<close>

definition spaces :: "string \<Rightarrow> nat" where
  "spaces s = count_list s CHR '' ''"

definition ww_spaces :: "WordWrap \<Rightarrow> nat" where
  "ww_spaces w = spaces (ww_buf w @ ww_space w @ ww_word w)"

text \<open>A wrapping function that adds no space to any text.\<close>

definition adds_no_space :: "(string \<Rightarrow> nat \<Rightarrow> string) \<Rightarrow> bool" where
  "adds_no_space wrap = (\<forall>s w. spaces (wrap s w) \<le> spaces s)"

text \<open>A word list none of whose words has a space in it.\<close>

definition space_free :: "string list \<Rightarrow> bool" where
  "space_free ws = list_all (\<lambda>w. CHR '' '' \<notin> set w) ws"

subsection \<open>Well-formed models and accepted keystrokes\<close>

text \<open>
  What holds of every model the program reaches when the words have no space of their
  own: one status per character, the cursor inside the text, and fewer spaces in the
  text than there are words.
\<close>

definition cursor_ok :: "Model \<Rightarrow> bool" where
  "cursor_ok m = (length (inputs m) = length (chars m) \<and> current m < length (chars m))"

definition wf_Model :: "Model \<Rightarrow> bool" where
  "wf_Model m = (cursor_ok m \<and> count_list (chars m) CHR '' '' < length (words m))"

text \<open>A keystroke that \<open>Update\<close> consumes: not an abort key, and found in \<open>ok_inputs\<close>.\<close>

fun accepted :: "Msg \<Rightarrow> bool" where
  "accepted (KeyMsg key) =
     (key \<noteq> ''ctrl+c'' \<and> key \<noteq> ''esc'' \<and> strings_Contains ok_inputs key)"
| "accepted (StartStopMsg i r) = False"
| "accepted (ResetMsg i) = False"
| "accepted (TickMsg i t) = False"
| "accepted OtherMsg = False"

subsection \<open>Concrete sessions\<close>

text \<open>A fresh model over a given text, with the stopwatch numbered 1.\<close>

definition fresh :: "string \<Rightarrow> string list \<Rightarrow> Model" where
  "fresh s ws =
     \<lparr>chars = s, words = ws, inputs = replicate (length s) Neutral, current = 0,
      quitting = False, time = stopwatch_NewWithInterval 1000000 1, stats = None\<rparr>"

text \<open>
  The messages of a session in which the keys \<open>ks\<close> are typed: the first key, then the
  start message and the first tick that the command returned for the first key brings
  about, then the other keys.
\<close>

fun typing :: "string list \<Rightarrow> Msg list" where
  "typing [] = []"
| "typing (k # ks) = KeyMsg k # StartStopMsg 1 True # TickMsg 1 0 # map KeyMsg ks"

text \<open>The stopwatch of such a session after its first tick.\<close>

definition ticked_once :: stopwatch_Model where
  "ticked_once =
     \<lparr>sw_d = 1000000, sw_id = 1, sw_tag = 1, sw_running = True, sw_Interval = 1000000\<rparr>"

text \<open>The session over the text \<open>cat dog\<close>.\<close>

definition cat_dog :: Model where
  "cat_dog = fresh ''cat dog'' [''cat'', ''dog'']"

text \<open>
  A session over eleven characters, and a session over five words of five letters each
  that has been typed correctly, as it stands one minute after the start.
\<close>

definition typing_test :: Model where
  "typing_test = fresh ''typing test'' [''typing'', ''test'']"

definition five_words :: Model where
  "five_words =
     (fresh ''alpha bravo delta gamma omega''
        [''alpha'', ''bravo'', ''delta'', ''gamma'', ''omega''])
       \<lparr>inputs :=
          [Good, Good, Good, Good, Good, Good, Good, Good, Good, Good,
           Good, Good, Good, Good, Good, Good, Good, Good, Good, Good,
           Good, Good, Good, Good, Good, Good, Good, Good, Good],
        current := 28,
        time := \<lparr>sw_d = 60000000000, sw_id = 1, sw_tag = 60000, sw_running = True,
                  sw_Interval = 1000000\<rparr>\<rparr>"

section \<open>Basic facts\<close>

lemma Quit_not_running:
  "\<not> Running (time m) \<Longrightarrow> Quit m = Inr (m\<lparr>quitting := True\<rparr>)"
  by (simp add: Quit_def)


section \<open>The scan, the counts and the summary in closed form\<close>

lemma space_segments_nonempty: "space_segments ps \<noteq> []"
  by (cases ps) auto

lemma length_space_segments:
  "length (space_segments ps) = Suc (count_list (map fst ps) CHR '' '')"
  by (induction ps) (auto simp: space_segments_nonempty)

lemma segment_verdict_Nil: "segment_verdict [] = Good"
  by (simp add: segment_verdict_def)

lemma segment_verdict_Cons:
  "segment_verdict (p # seg) = (if snd p = Good then segment_verdict seg else Bad)"
  by (simp add: segment_verdict_def)

lemma segment_verdict_cases: "segment_verdict seg = Good \<or> segment_verdict seg = Bad"
  by (simp add: segment_verdict_def)

lemma with_flag_Good:
  "with_flag Good (map segment_verdict segs) = map segment_verdict segs"
  by (cases segs) (auto simp: segment_verdict_def)

lemma typed_scan_segments:
  "i + length cs \<le> length inp \<Longrightarrow>
   (case typed_scan inp i cs typed flag of Inl e \<Rightarrow> Inl e | Inr (t, f) \<Rightarrow> Inr (t @ [f])) =
   Inr (typed @ with_flag flag (map segment_verdict (space_segments (zip cs (drop i inp)))))"
proof (induction cs arbitrary: i typed flag)
  case Nil
  then show ?case by (simp add: segment_verdict_Nil)
next
  case (Cons c cs)
  then have i: "i < length inp" and le: "Suc i + length cs \<le> length inp" by auto
  have d: "drop i inp = inp ! i # drop (Suc i) inp"
    using i by (simp add: Cons_nth_drop_Suc)
  obtain seg segs where s: "space_segments (zip cs (drop (Suc i) inp)) = seg # segs"
    using space_segments_nonempty by (cases "space_segments (zip cs (drop (Suc i) inp))") auto
  show ?case
  proof (cases "c = CHR '' ''")
    case True
    then show ?thesis
      using Cons.IH [OF le, of "typed @ [flag]" Good] i d
      by (simp add: with_flag_Good segment_verdict_Nil)
  next
    case False
    then show ?thesis
      using Cons.IH [OF le, of typed "if inp ! i \<noteq> Good then Bad else flag"] i d s
      by (simp add: segment_verdict_Cons)
  qed
qed

lemma word_verdicts_segments:
  "length cs \<le> length inp \<Longrightarrow>
   word_verdicts cs inp = Inr (map segment_verdict (space_segments (zip cs inp)))"
  using typed_scan_segments [of 0 cs inp "[]" Good]
  by (simp add: word_verdicts_def with_flag_Good)

lemma length_word_verdicts:
  assumes le: "length cs \<le> length inp" and wv: "word_verdicts cs inp = Inr typed"
  shows "length typed = Suc (count_list cs CHR '' '')"
proof -
  have "map fst (zip cs inp) = cs"
    using le by (simp add: map_fst_zip_take)
  then show ?thesis
    using wv le by (auto simp: word_verdicts_segments length_space_segments)
qed

lemma count_typed_good_words:
  "i + length typed \<le> length ws \<Longrightarrow>
   count_typed ws i typed c n =
     Inr (c + sum_list (map length (good_words typed (drop i ws))),
          n + length (good_words typed (drop i ws)))"
proof (induction typed arbitrary: i c n)
  case Nil
  then show ?case by (simp add: good_words_def)
next
  case (Cons v typed)
  then have i: "i < length ws" and le: "Suc i + length typed \<le> length ws" by auto
  have d: "drop i ws = ws ! i # drop (Suc i) ws"
    using i by (simp add: Cons_nth_drop_Suc)
  show ?case
    using Cons.IH [OF le] i d by (simp add: good_words_def)
qed

lemma accuracy_loop_sum:
  "cur \<le> length inp \<Longrightarrow> i \<le> cur \<Longrightarrow>
   accuracy_loop inp cur i acc =
     Inr (acc + (\<Sum>k = i..<cur. real_of_int (Status_int (inp ! k))))"
proof (induction inp cur i acc rule: accuracy_loop.induct)
  case (1 inp cur index accuracy)
  show ?case
  proof (cases "index < cur")
    case True
    then have "index < length inp" using "1.prems" by simp
    then show ?thesis
      using True "1.IH" "1.prems"
      by (subst accuracy_loop.simps) (simp add: sum.atLeast_Suc_lessThan add.assoc)
  next
    case False
    then show ?thesis using "1.prems" by (subst accuracy_loop.simps) simp
  qed
qed

lemma accuracy_loop_status_sum:
  "cur \<le> length inp \<Longrightarrow> accuracy_loop inp cur 0 0 = Inr (status_sum inp cur)"
  using accuracy_loop_sum [of cur inp 0 0]
  by (simp add: status_sum_def lessThan_atLeast0)

lemma typed_counts_good_words:
  assumes len: "length (chars m) \<le> length (inputs m)"
    and sp: "count_list (chars m) CHR '' '' < length (words m)"
  shows "typed_counts m =
     (let gw = good_words (map segment_verdict (space_segments (zip (chars m) (inputs m))))
                 (words m)
      in Inr (sum_list (map length gw), length gw))"
proof -
  let ?typed = "map segment_verdict (space_segments (zip (chars m) (inputs m)))"
  have wv: "word_verdicts (chars m) (inputs m) = Inr ?typed"
    using len by (rule word_verdicts_segments)
  have "length ?typed = Suc (count_list (chars m) CHR '' '')"
    using length_word_verdicts [OF len wv] .
  then have "0 + length ?typed \<le> length (words m)" using sp by simp
  then have "count_typed (words m) 0 ?typed 0 0 =
      Inr (sum_list (map length (good_words ?typed (words m))),
           length (good_words ?typed (words m)))"
    using count_typed_good_words [of 0 ?typed "words m" 0 0] by simp
  then show ?thesis
    using wv by (simp add: typed_counts_def Let_def)
qed

lemma typed_counts_cong:
  "chars m' = chars m \<Longrightarrow> inputs m' = inputs m \<Longrightarrow> words m' = words m \<Longrightarrow>
   typed_counts m' = typed_counts m"
  by (simp add: typed_counts_def split: sum.splits)

lemma Quit_unfold:
  "Quit m =
     (if \<not> Running (time m) then Inr (m\<lparr>quitting := True\<rparr>)
      else case typed_counts m of
        Inl e \<Rightarrow> Inl e
      | Inr (c, n) \<Rightarrow>
          (case accuracy_loop (inputs m) (current m) 0 0 of
             Inl e \<Rightarrow> Inl e
           | Inr acc \<Rightarrow>
               Inr (m\<lparr>quitting := True,
                      stats := Some (Sprintf n (Seconds (Elapsed (time m)))
                        (float64_div (real c) (5 * Minutes (Elapsed (time m))))
                        (float64_scale (float64_div acc (real (current m))) 100))\<rparr>)))"
proof -
  have tc: "typed_counts (m\<lparr>quitting := True\<rparr>) = typed_counts m"
    by (rule typed_counts_cong) simp_all
  show ?thesis
  proof (cases "Running (time m)")
    case False
    then show ?thesis by (simp add: Quit_def)
  next
    case True
    show ?thesis
    proof (cases "typed_counts m")
      case (Inl e)
      then show ?thesis using True tc by (simp add: Quit_def)
    next
      case (Inr p)
      obtain c n where p: "p = (c, n)" by (cases p)
      show ?thesis
      proof (cases "accuracy_loop (inputs m) (current m) 0 0")
        case (Inl e)
        then show ?thesis using True tc Inr p by (simp add: Quit_def)
      next
        case (Inr acc)
        then show ?thesis using True tc \<open>typed_counts m = Inr p\<close> p by (simp add: Quit_def)
      qed
    qed
  qed
qed

lemma Quit_running:
  assumes run: "Running (time m)"
    and len: "length (chars m) \<le> length (inputs m)"
    and cur: "current m \<le> length (inputs m)"
    and sp: "count_list (chars m) CHR '' '' < length (words m)"
  shows "Quit m = Inr (m\<lparr>quitting := True, stats := Some (summary_of m)\<rparr>)"
proof -
  have ac: "accuracy_loop (inputs m) (current m) 0 0 = Inr (status_sum (inputs m) (current m))"
    using cur by (rule accuracy_loop_status_sum)
  show ?thesis
    using run typed_counts_good_words [OF len sp] ac
    by (simp add: Quit_unfold summary_of_def Let_def)
qed

lemma Quit_wf:
  "wf_Model m \<Longrightarrow> Running (time m) \<Longrightarrow>
   Quit m = Inr (m\<lparr>quitting := True, stats := Some (summary_of m)\<rparr>)"
  by (rule Quit_running) (auto simp: wf_Model_def cursor_ok_def)

lemma Quit_result:
  assumes "Quit m = Inr m'"
  shows "\<exists>s. m' = m\<lparr>quitting := True, stats := s\<rparr>"
proof (cases "Running (time m)")
  case False
  then have "m' = m\<lparr>quitting := True\<rparr>"
    using assms by (simp add: Quit_unfold)
  then have "m' = m\<lparr>quitting := True, stats := stats m\<rparr>"
    by simp
  then show ?thesis ..
next
  case True
  then obtain c n where tc: "typed_counts m = Inr (c, n)"
    using assms by (cases "typed_counts m") (auto simp: Quit_unfold)
  obtain acc where ac: "accuracy_loop (inputs m) (current m) 0 0 = Inr acc"
    using assms True tc
    by (cases "accuracy_loop (inputs m) (current m) 0 0") (auto simp: Quit_unfold)
  show ?thesis
    using assms True tc ac by (auto simp: Quit_unfold)
qed

lemma Quit_frame:
  assumes "Quit m = Inr m'"
  shows "chars m' = chars m \<and> words m' = words m \<and> inputs m' = inputs m \<and>
         current m' = current m \<and> time m' = time m \<and> quitting m'"
  using Quit_result [OF assms] by auto

lemma Quit_twice:
  assumes "Quit m = Inr m'"
  shows "Quit m' = Inr m'"
proof (cases "Running (time m)")
  case False
  then have "m' = m\<lparr>quitting := True\<rparr>"
    using assms by (simp add: Quit_unfold)
  then show ?thesis
    using False by (simp add: Quit_unfold)
next
  case True
  then obtain c n where tc: "typed_counts m = Inr (c, n)"
    using assms by (cases "typed_counts m") (auto simp: Quit_unfold)
  obtain acc where ac: "accuracy_loop (inputs m) (current m) 0 0 = Inr acc"
    using assms True tc
    by (cases "accuracy_loop (inputs m) (current m) 0 0") (auto simp: Quit_unfold)
  define s where "s = Some (Sprintf n (Seconds (Elapsed (time m)))
        (float64_div (real c) (5 * Minutes (Elapsed (time m))))
        (float64_scale (float64_div acc (real (current m))) 100))"
  have m': "m' = m\<lparr>quitting := True, stats := s\<rparr>"
    using assms True tc ac by (simp add: Quit_unfold s_def)
  have fr: "chars m' = chars m" "words m' = words m" "inputs m' = inputs m"
    "current m' = current m" "time m' = time m"
    by (simp_all add: m')
  have tc': "typed_counts m' = Inr (c, n)"
    using typed_counts_cong [of m' m] tc fr by simp
  have "Quit m' = Inr (m'\<lparr>quitting := True, stats := s\<rparr>)"
    using True tc' ac by (simp add: Quit_unfold [of m'] fr s_def)
  moreover have "m'\<lparr>quitting := True, stats := s\<rparr> = m'"
    by (simp add: m')
  ultimately show ?thesis by simp
qed

lemma strings_Contains_single:
  "strings_Contains s [c] = (c \<in> set s)"
  by (induction s) auto

lemma Update_ignored:
  "key \<noteq> ''ctrl+c'' \<Longrightarrow> key \<noteq> ''esc'' \<Longrightarrow> \<not> strings_Contains ok_inputs key \<Longrightarrow>
   Update m (KeyMsg key) = Inr (m, Cmd_nil)"
  by (simp add: Update_def Update_tail_def)

lemmas wordwrap_defs = wordwrap_String_def Close_def Write_def NewWriter_def
      Write_rune_def addWord_def addSpace_def addNewLine_def IsSpace_def newline_def
      PrintableRuneWidth_def RuneWidth_def Let_def

lemmas session_defs = Update_def Update_tail_def Quit_def typed_counts_def word_verdicts_def
      accuracy_loop.simps Running_def Elapsed_def Start_def Minutes_def Seconds_def
      float64_div_def ok_inputs_def fresh_def stopwatch_NewWithInterval_def ticked_once_def Let_def

section \<open>Concrete sessions, evaluated\<close>

lemma NewModel_cat_dog:
  "NewModel wordwrap_String (Some 80) 1 [''cat'', ''dog''] = Inr cat_dog"
  by (simp add: NewModel_def cat_dog_def fresh_def wordwrap_defs)

lemma run_cat_dog:
  "run cat_dog (typing [''c'', ''a'', ''t'', '' '', ''d'', ''o'', ''g'']) =
     Inr (cat_dog\<lparr>inputs := [Good, Good, Good, Good, Good, Good, Good], current := 6,
            quitting := True, time := ticked_once,
            stats := Some (Sprintf 2 (1 / 1000) (Finite 72000) (Finite 100))\<rparr>)"
  by (simp add: cat_dog_def session_defs)

lemma run_cat_dpg:
  "run cat_dog (typing [''c'', ''a'', ''t'', '' '', ''d'', ''p'', ''g'']) =
     Inr (cat_dog\<lparr>inputs := [Good, Good, Good, Good, Good, Bad, Good], current := 6,
            quitting := True, time := ticked_once,
            stats := Some (Sprintf 1 (1 / 1000) (Finite 36000) (Finite (250 / 3)))\<rparr>)"
  by (simp add: cat_dog_def session_defs)

lemma typed_counts_cat_dog:
  "typed_counts (cat_dog\<lparr>inputs := [Good, Good, Good, Good, Good, Good, Good], current := 6,
      quitting := True, time := ticked_once,
      stats := Some (Sprintf 2 (1 / 1000) (Finite 72000) (Finite 100))\<rparr>) = Inr (6, 2)"
  by (simp add: cat_dog_def fresh_def typed_counts_def word_verdicts_def)

lemma typed_counts_cat_dpg:
  "typed_counts (cat_dog\<lparr>inputs := [Good, Good, Good, Good, Good, Bad, Good], current := 6,
      quitting := True, time := ticked_once,
      stats := Some (Sprintf 1 (1 / 1000) (Finite 36000) (Finite (250 / 3)))\<rparr>) = Inr (3, 1)"
  by (simp add: cat_dog_def fresh_def typed_counts_def word_verdicts_def)

section \<open>Update, step by step\<close>

lemma Update_abort:
  "key = ''ctrl+c'' \<or> key = ''esc'' \<Longrightarrow>
   Update m (KeyMsg key) = (case Quit m of Inl e \<Rightarrow> Inl e | Inr m' \<Rightarrow> Inr (m', tea_Quit))"
  by (auto simp: Update_def)

lemma Update_accepted_last:
  assumes "accepted (KeyMsg key)" and "cursor_ok m" and "current m = length (chars m) - 1"
  shows "Update m (KeyMsg key) =
     (case Quit (m\<lparr>inputs := (inputs m)[current m :=
                     (if [chars m ! current m] = key then Good else Bad)]\<rparr>) of
        Inl e \<Rightarrow> Inl e
      | Inr m' \<Rightarrow> Inr (m', tea_Quit))"
  using assms by (simp add: Update_def cursor_ok_def Let_def)

lemma Update_accepted_inner:
  assumes "accepted (KeyMsg key)" and "cursor_ok m" and "current m \<noteq> length (chars m) - 1"
  shows "Update m (KeyMsg key) =
     Inr (m\<lparr>inputs := (inputs m)[current m :=
                 (if [chars m ! current m] = key then Good else Bad)],
             current := current m + 1\<rparr>,
          if current m = 0 \<and> \<not> Running (time m) then Start (time m) else Cmd_nil)"
  using assms by (simp add: Update_def Update_tail_def cursor_ok_def Let_def Start_def)

lemma Update_not_key:
  "\<forall>key. msg \<noteq> KeyMsg key \<Longrightarrow>
   Update m msg =
     Inr (m\<lparr>time := fst (stopwatch_Update (time m) msg)\<rparr>, snd (stopwatch_Update (time m) msg))"
  by (cases msg) (simp_all add: Update_def Update_tail_def split: prod.splits)

lemma Update_current:
  assumes ok: "cursor_ok m" and up: "Update m msg = Inr (m', cmd)"
  shows "cursor_ok m' \<and> chars m' = chars m \<and> words m' = words m \<and>
         current m' =
           (if accepted msg \<and> current m < length (chars m) - 1 then current m + 1
            else current m)"
proof (cases "\<exists>key. msg = KeyMsg key")
  case False
  then have "\<forall>key. msg \<noteq> KeyMsg key" by simp
  then have "m' = m\<lparr>time := fst (stopwatch_Update (time m) msg)\<rparr>"
    using up by (simp add: Update_not_key)
  moreover have "\<not> accepted msg" using False by (cases msg) simp_all
  ultimately show ?thesis using ok by (simp add: cursor_ok_def)
next
  case True
  then obtain key where msg: "msg = KeyMsg key" by blast
  show ?thesis
  proof (cases "key = ''ctrl+c'' \<or> key = ''esc''")
    case True
    then have "Quit m = Inr m'"
      using up msg by (cases "Quit m") (auto simp: Update_abort)
    then have "chars m' = chars m \<and> words m' = words m \<and> inputs m' = inputs m \<and>
         current m' = current m"
      using Quit_frame by blast
    moreover have "\<not> accepted msg" using True msg by auto
    ultimately show ?thesis using ok by (simp add: cursor_ok_def)
  next
    case noabort: False
    show ?thesis
    proof (cases "strings_Contains ok_inputs key")
      case False
      then have "m' = m" using up msg noabort by (simp add: Update_ignored)
      moreover have "\<not> accepted msg" using False msg by simp
      ultimately show ?thesis using ok by simp
    next
      case True
      then have acc: "accepted (KeyMsg key)" using noabort by simp
      let ?m1 = "m\<lparr>inputs := (inputs m)[current m :=
                     (if [chars m ! current m] = key then Good else Bad)]\<rparr>"
      show ?thesis
      proof (cases "current m = length (chars m) - 1")
        case True
        then have "Quit ?m1 = Inr m'"
          using up msg Update_accepted_last [OF acc ok True] by (cases "Quit ?m1") auto
        then have "chars m' = chars ?m1 \<and> words m' = words ?m1 \<and> inputs m' = inputs ?m1 \<and>
           current m' = current ?m1"
          using Quit_frame by blast
        then show ?thesis using ok True by (simp add: cursor_ok_def)
      next
        case False
        then have "m' = ?m1\<lparr>current := current m + 1\<rparr>"
          using up msg Update_accepted_inner [OF acc ok False] by simp
        moreover have "current m < length (chars m) - 1"
          using ok False by (auto simp: cursor_ok_def)
        ultimately show ?thesis using ok acc msg by (simp add: cursor_ok_def)
      qed
    qed
  qed
qed

lemma run_current:
  "cursor_ok m \<Longrightarrow> run m msgs = Inr m' \<Longrightarrow>
   cursor_ok m' \<and> chars m' = chars m \<and> words m' = words m \<and>
   current m' = min (current m + length (filter accepted msgs)) (length (chars m) - 1)"
proof (induction msgs arbitrary: m)
  case Nil
  then show ?case by (auto simp: cursor_ok_def)
next
  case (Cons msg msgs)
  obtain m1 cmd where up: "Update m msg = Inr (m1, cmd)" and rest: "run m1 msgs = Inr m'"
    using Cons.prems(2) by (cases "Update m msg") (auto split: prod.splits)
  have st: "cursor_ok m1 \<and> chars m1 = chars m \<and> words m1 = words m \<and>
         current m1 =
           (if accepted msg \<and> current m < length (chars m) - 1 then current m + 1
            else current m)"
    using Update_current [OF Cons.prems(1) up] .
  have ih: "cursor_ok m' \<and> chars m' = chars m1 \<and> words m' = words m1 \<and>
   current m' = min (current m1 + length (filter accepted msgs)) (length (chars m1) - 1)"
    using Cons.IH [of m1] st rest by blast
  have "current m < length (chars m)" using Cons.prems(1) by (simp add: cursor_ok_def)
  then show ?case using st ih by (auto simp: min_def)
qed

lemma NewModel_fields:
  assumes "NewModel wrap ts nid ws = Inr m"
  shows "cursor_ok m \<and> current m = 0 \<and> words m = ws \<and> \<not> quitting m \<and> stats m = None \<and>
         \<not> Running (time m) \<and>
         (\<exists>w. ts = Some w \<and> chars m = wrap (strings_Join ws '' '') w)"
  using assms
  by (auto simp: NewModel_def cursor_ok_def Let_def Running_def stopwatch_NewWithInterval_def
      split: option.splits if_splits)

lemma wf_Model_mark:
  "wf_Model m \<Longrightarrow> wf_Model (m\<lparr>inputs := (inputs m)[i := s]\<rparr>)"
  by (simp add: wf_Model_def cursor_ok_def)

lemma Quit_total:
  assumes "wf_Model m"
  shows "\<exists>m'. Quit m = Inr m'"
proof (cases "Running (time m)")
  case True
  then show ?thesis using Quit_wf [OF assms] by blast
next
  case False
  then show ?thesis using Quit_not_running by blast
qed

lemma wf_cat_dog: "wf_Model cat_dog"
  by (simp add: wf_Model_def cursor_ok_def cat_dog_def fresh_def)

lemma run_cat:
  "run cat_dog (typing [''c'', ''a'', ''t'']) =
     Inr (cat_dog\<lparr>inputs := [Good, Good, Good, Neutral, Neutral, Neutral, Neutral],
            current := 3, time := ticked_once\<rparr>)"
  by (simp add: cat_dog_def session_defs)

lemma status_sum_take:
  assumes "cur \<le> length inp"
  shows "status_sum inp cur = sum_list (map (\<lambda>s. real_of_int (Status_int s)) (take cur inp))"
proof -
  have "sum_list (map (\<lambda>s. real_of_int (Status_int s)) (take cur inp)) =
      (\<Sum>i = 0..<cur. map (\<lambda>s. real_of_int (Status_int s)) (take cur inp) ! i)"
    using assms by (simp add: sum_list_sum_nth)
  also have "\<dots> = (\<Sum>i = 0..<cur. real_of_int (Status_int (inp ! i)))"
    using assms by (intro sum.cong) simp_all
  finally show ?thesis
    by (simp add: status_sum_def lessThan_atLeast0)
qed

lemma Update_accepted_wf:
  assumes acc: "accepted (KeyMsg key)" and wf: "wf_Model m"
  shows "\<exists>m' cmd. Update m (KeyMsg key) = Inr (m', cmd) \<and>
           inputs m' = (inputs m)[current m :=
                          (if [chars m ! current m] = key then Good else Bad)] \<and>
           (if current m = length (chars m) - 1
            then cmd = tea_Quit \<and> quitting m' \<and> current m' = current m \<and>
                 Quit (m\<lparr>inputs := (inputs m)[current m :=
                          (if [chars m ! current m] = key then Good else Bad)]\<rparr>) = Inr m'
            else cmd \<noteq> tea_Quit \<and> current m' = current m + 1 \<and>
                 quitting m' = quitting m \<and> stats m' = stats m)"
proof -
  let ?m1 = "m\<lparr>inputs := (inputs m)[current m :=
                          (if [chars m ! current m] = key then Good else Bad)]\<rparr>"
  have ok: "cursor_ok m" using wf by (simp add: wf_Model_def)
  show ?thesis
  proof (cases "current m = length (chars m) - 1")
    case True
    obtain m' where q: "Quit ?m1 = Inr m'"
      using Quit_total [OF wf_Model_mark [OF wf]] by blast
    have "Update m (KeyMsg key) = Inr (m', tea_Quit)"
      using Update_accepted_last [OF acc ok True] q by simp
    moreover have "inputs m' = inputs ?m1 \<and> current m' = current ?m1 \<and> quitting m'"
      using Quit_frame [OF q] by simp
    ultimately show ?thesis using True q by simp
  next
    case False
    have "Update m (KeyMsg key) =
       Inr (?m1\<lparr>current := current m + 1\<rparr>,
            if current m = 0 \<and> \<not> Running (time m) then Start (time m) else Cmd_nil)"
      using Update_accepted_inner [OF acc ok False] by simp
    then show ?thesis using False by (simp add: Start_def)
  qed
qed

lemma Update_total:
  assumes wf: "wf_Model m"
  shows "\<exists>m' cmd. Update m msg = Inr (m', cmd) \<and> wf_Model m'"
proof -
  have ok: "cursor_ok m" using wf by (simp add: wf_Model_def)
  have ex: "\<exists>m' cmd. Update m msg = Inr (m', cmd)"
  proof (cases "\<exists>key. msg = KeyMsg key")
    case False
    then show ?thesis using Update_not_key [of msg m] by simp
  next
    case True
    then obtain key where msg: "msg = KeyMsg key" by blast
    show ?thesis
    proof (cases "key = ''ctrl+c'' \<or> key = ''esc''")
      case True
      obtain m' where "Quit m = Inr m'" using Quit_total [OF wf] by blast
      then show ?thesis using Update_abort [OF True, of m] msg by simp
    next
      case noabort: False
      show ?thesis
      proof (cases "strings_Contains ok_inputs key")
        case False
        then show ?thesis using noabort msg by (simp add: Update_ignored)
      next
        case True
        then have "accepted (KeyMsg key)" using noabort by simp
        then show ?thesis using Update_accepted_wf [OF _ wf, of key] msg by blast
      qed
    qed
  qed
  then obtain m' cmd where up: "Update m msg = Inr (m', cmd)" by blast
  have "cursor_ok m' \<and> chars m' = chars m \<and> words m' = words m"
    using Update_current [OF ok up] by simp
  then have "wf_Model m'" using wf by (simp add: wf_Model_def)
  then show ?thesis using up by blast
qed

lemma run_total:
  "wf_Model m \<Longrightarrow> \<exists>m'. run m msgs = Inr m' \<and> wf_Model m'"
proof (induction msgs arbitrary: m)
  case Nil
  then show ?case by simp
next
  case (Cons msg msgs)
  obtain m1 cmd where up: "Update m msg = Inr (m1, cmd)" and wf1: "wf_Model m1"
    using Update_total [OF Cons.prems] by blast
  show ?case using Cons.IH [OF wf1] up by simp
qed

section \<open>Spaces of the text\<close>

lemma spaces_append [simp]: "spaces (a @ b) = spaces a + spaces b"
  by (simp add: spaces_def)

lemma spaces_Nil [simp]: "spaces [] = 0"
  by (simp add: spaces_def)

lemma spaces_Cons [simp]: "spaces (c # s) = (if c = CHR '' '' then 1 else 0) + spaces s"
  by (simp add: spaces_def)

lemma spaces_word: "CHR '' '' \<notin> set w \<Longrightarrow> spaces w = 0"
  by (induction w) auto

lemma spaces_Join:
  "space_free ws \<Longrightarrow> spaces (strings_Join ws '' '') = length ws - 1"
proof (induction ws "'' ''" rule: strings_Join.induct)
  case 1
  then show ?case by simp
next
  case (2 w)
  then show ?case by (simp add: space_free_def spaces_word)
next
  case (3 w v ws)
  then show ?case by (simp add: space_free_def spaces_word)
qed

lemma addSpace_spaces: "ww_spaces (addSpace w) = ww_spaces w"
  by (simp add: ww_spaces_def addSpace_def)

lemma addWord_spaces: "ww_spaces (addWord w) = ww_spaces w"
  by (simp add: ww_spaces_def addWord_def addSpace_def Let_def)

lemma addNewLine_spaces: "ww_spaces (addNewLine w) \<le> ww_spaces w"
  by (simp add: ww_spaces_def addNewLine_def newline_def)

lemma Write_rune_spaces:
  "ww_spaces (Write_rune w c) \<le> ww_spaces w + (if c = CHR '' '' then 1 else 0)"
proof -
  have nl: "\<And>v. ww_spaces (addNewLine v) \<le> ww_spaces v" by (rule addNewLine_spaces)
  have aw: "\<And>v. ww_spaces (addWord v) = ww_spaces v" by (rule addWord_spaces)
  have as: "\<And>v. ww_spaces (addSpace v) = ww_spaces v" by (rule addSpace_spaces)
  consider (esc) "c = CHR 0x1B"
    | (ansi) "c \<noteq> CHR 0x1B" "ww_ansi w"
    | (newl) "c \<noteq> CHR 0x1B" "\<not> ww_ansi w" "c = newline"
    | (spc) "c \<noteq> CHR 0x1B" "\<not> ww_ansi w" "c \<noteq> newline" "IsSpace c"
    | (brk) "c \<noteq> CHR 0x1B" "\<not> ww_ansi w" "c \<noteq> newline" "\<not> IsSpace c" "c = CHR ''-''"
    | (chr) "c \<noteq> CHR 0x1B" "\<not> ww_ansi w" "c \<noteq> newline" "\<not> IsSpace c" "c \<noteq> CHR ''-''"
    by blast
  then show ?thesis
  proof cases
    case esc
    then show ?thesis by (simp add: Write_rune_def ww_spaces_def)
  next
    case ansi
    then show ?thesis by (simp add: Write_rune_def ww_spaces_def)
  next
    case newl
    let ?w1 = "if length (ww_word w) = 0 then
              (if ww_Limit w < ww_lineLen w + length (ww_space w)
               then w\<lparr>ww_lineLen := 0, ww_space := []\<rparr>
               else w\<lparr>ww_buf := ww_buf w @ ww_space w, ww_space := []\<rparr>)
            else w"
    have "ww_spaces ?w1 \<le> ww_spaces w" by (simp add: ww_spaces_def)
    moreover have "ww_spaces (addNewLine (addWord ?w1)) \<le> ww_spaces ?w1"
      using nl [of "addWord ?w1"] aw [of ?w1] by simp
    moreover have "Write_rune w c = addNewLine (addWord ?w1)"
      using newl by (simp add: Write_rune_def Let_def newline_def)
    ultimately show ?thesis by simp
  next
    case spc
    have "Write_rune w c = (addWord w)\<lparr>ww_space := ww_space (addWord w) @ [c]\<rparr>"
      using spc by (simp add: Write_rune_def Let_def)
    moreover have "ww_spaces ((addWord w)\<lparr>ww_space := ww_space (addWord w) @ [c]\<rparr>) =
        ww_spaces (addWord w) + (if c = CHR '' '' then 1 else 0)"
      by (simp add: ww_spaces_def)
    ultimately show ?thesis using aw [of w] by simp
  next
    case brk
    let ?w1 = "addWord (addSpace w)"
    have "Write_rune w c = ?w1\<lparr>ww_buf := ww_buf ?w1 @ [c], ww_lineLen := ww_lineLen ?w1 + 1\<rparr>"
      using brk by (simp add: Write_rune_def Let_def)
    moreover have "ww_spaces (?w1\<lparr>ww_buf := ww_buf ?w1 @ [c], ww_lineLen := ww_lineLen ?w1 + 1\<rparr>) =
        ww_spaces ?w1"
      using brk by (simp add: ww_spaces_def)
    ultimately show ?thesis using aw [of "addSpace w"] as [of w] by simp
  next
    case chr
    let ?w1 = "w\<lparr>ww_word := ww_word w @ [c]\<rparr>"
    have sp: "c \<noteq> CHR '' ''" using chr by (auto simp: IsSpace_def)
    have w1: "ww_spaces ?w1 = ww_spaces w" using sp by (simp add: ww_spaces_def)
    have "Write_rune w c = ?w1 \<or> Write_rune w c = addNewLine ?w1"
      using chr by (simp add: Write_rune_def Let_def)
    then show ?thesis using nl [of ?w1] w1 by auto
  qed
qed

lemma foldl_Write_rune_spaces:
  "ww_spaces (foldl Write_rune w s) \<le> ww_spaces w + spaces s"
proof (induction s arbitrary: w)
  case Nil
  then show ?case by simp
next
  case (Cons c s)
  have "ww_spaces (foldl Write_rune (Write_rune w c) s) \<le> ww_spaces (Write_rune w c) + spaces s"
    by (rule Cons.IH)
  then show ?case using Write_rune_spaces [of w c] by simp
qed

lemma Write_spaces: "ww_spaces (Write w b) \<le> ww_spaces w + spaces b"
  using foldl_Write_rune_spaces [of w b] by (simp add: Write_def ww_spaces_def)

lemma wordwrap_String_spaces: "spaces (wordwrap_String s limit) \<le> spaces s"
proof -
  let ?w = "Write (NewWriter limit) s"
  have "spaces (ww_buf (addWord ?w)) \<le> ww_spaces (addWord ?w)"
    by (simp add: ww_spaces_def)
  also have "\<dots> = ww_spaces ?w" by (rule addWord_spaces)
  also have "\<dots> \<le> ww_spaces (NewWriter limit) + spaces s" by (rule Write_spaces)
  also have "\<dots> = spaces s" by (simp add: ww_spaces_def NewWriter_def)
  finally show ?thesis by (simp add: wordwrap_String_def Close_def)
qed

lemma wordwrap_String_adds_no_space: "adds_no_space wordwrap_String"
  by (simp add: adds_no_space_def wordwrap_String_spaces)

lemma NewModel_wf:
  assumes new: "NewModel wrap ts nid ws = Inr m" and ne: "ws \<noteq> []"
    and sf: "space_free ws" and wr: "adds_no_space wrap"
  shows "wf_Model m \<and> spaces (chars m) \<le> length ws - 1"
proof -
  obtain w where ch: "chars m = wrap (strings_Join ws '' '') w"
    using NewModel_fields [OF new] by blast
  have "spaces (chars m) \<le> spaces (strings_Join ws '' '')"
    using wr by (simp add: ch adds_no_space_def)
  then have le: "spaces (chars m) \<le> length ws - 1"
    using spaces_Join [OF sf] by simp
  then have "count_list (chars m) CHR '' '' < length ws"
    using ne by (cases ws) (simp_all add: spaces_def)
  then show ?thesis
    using NewModel_fields [OF new] le by (simp add: wf_Model_def)
qed

section \<open>The summary of a well-formed model, and texts of space-free words\<close>

lemma Quit_summary:
  assumes "Running (time m)" and "wf_Model m"
  shows "\<exists>m'. Quit m = Inr m' \<and> stats m' = Some (summary_of m)"
  using Quit_wf [OF assms(2) assms(1)] by simp

lemma summary_of_accuracy:
  "summary_accuracy (summary_of m) =
     float64_scale (float64_div (status_sum (inputs m) (current m)) (real (current m))) 100"
  by (simp add: summary_of_def Let_def)

lemma summary_of_wpm:
  "summary_wpm (summary_of m) =
     float64_div
       (real (sum_list (map length
          (good_words (map segment_verdict (space_segments (zip (chars m) (inputs m))))
             (words m)))))
       (5 * Minutes (Elapsed (time m)))"
  by (simp add: summary_of_def Let_def)

lemma verdicts_in_range:
  assumes len: "length inp = length cs" and sp: "spaces cs < length ws"
  shows "\<exists>typed r. word_verdicts cs inp = Inr typed \<and> length typed \<le> length ws \<and>
           count_typed ws 0 typed 0 0 = Inr r"
proof -
  let ?typed = "map segment_verdict (space_segments (zip cs inp))"
  have le: "length cs \<le> length inp" using len by simp
  have wv: "word_verdicts cs inp = Inr ?typed"
    using le by (rule word_verdicts_segments)
  have "length ?typed = Suc (count_list cs CHR '' '')"
    using length_word_verdicts [OF le wv] .
  then have n: "length ?typed \<le> length ws" using sp by (simp add: spaces_def)
  then have "0 + length ?typed \<le> length ws" by simp
  then have "\<exists>r. count_typed ws 0 ?typed 0 0 = Inr r"
    using count_typed_good_words [of 0 ?typed ws 0 0] by blast
  then show ?thesis using wv n by blast
qed

lemma unwrapped_verdicts:
  assumes new: "NewModel wrap ts nid ws = Inr m0" and ne: "ws \<noteq> []"
    and sf: "space_free ws" and same: "chars m0 = strings_Join ws '' ''"
    and len: "length inp = length (chars m0)"
  shows "\<exists>typed. word_verdicts (chars m0) inp = Inr typed \<and> length typed = length ws"
proof -
  have le: "length (chars m0) \<le> length inp" using len by simp
  obtain typed where wv: "word_verdicts (chars m0) inp = Inr typed"
    using word_verdicts_segments [OF le] by blast
  have "length typed = Suc (spaces (chars m0))"
    using length_word_verdicts [OF le wv] by (simp add: spaces_def)
  then have "length typed = length ws"
    using spaces_Join [OF sf] same ne by (cases ws) simp_all
  then show ?thesis using wv by blast
qed

section \<open>More concrete sessions\<close>

lemma run_typing_test:
  "run typing_test
     (typing [''t'', ''y'', ''q'', ''i'', ''n'', ''g'', '' '', ''t'', ''x'', ''s'', ''esc'']) =
   Inr (typing_test\<lparr>inputs := [Good, Good, Bad, Good, Good, Good, Good, Good, Bad, Good,
          Neutral], current := 10, quitting := True, time := ticked_once,
          stats := Some (Sprintf 0 (1 / 1000) (Finite 0) (Finite 80))\<rparr>)"
  by (simp add: typing_test_def session_defs)

lemma NewModel_hello_world:
  "NewModel wordwrap_String (Some 10) 1 [''hello'', ''world''] =
     Inr (fresh ''hello\<newline>world'' [''hello'', ''world''])"
  by (simp add: NewModel_def fresh_def wordwrap_defs)

lemma NewModel_no_words: "\<exists>e. NewModel wordwrap_String ts nid [] = Inl e"
  by (cases ts) (simp_all add: NewModel_def wordwrap_defs)

lemma run_hello_world:
  "run (fresh ''hello\<newline>world'' [''hello'', ''world''])
     (typing [''h'', ''e'', ''l'', ''l'', ''o'', '' '', ''w'', ''o'', ''r'', ''l'', ''d'']) =
   Inr ((fresh ''hello\<newline>world'' [''hello'', ''world''])
          \<lparr>inputs := [Good, Good, Good, Good, Good, Bad, Good, Good, Good, Good, Good],
           current := 10, quitting := True, time := ticked_once,
           stats := Some (Sprintf 0 (1 / 1000) (Finite 0) (Finite 90))\<rparr>)"
  by (simp add: session_defs)

text \<open>
  A word with a space of its own is outside what the properties below assume of the
  word list: the text \<open>a b\<close> of the single word \<open>a b\<close> yields two verdicts, and
  \<open>Quit\<close> reads \<open>m.words[1]\<close> of a list of length 1.
\<close>

lemma run_embedded_space:
  "run (fresh ''a b'' [''a b'']) (typing [''a'', '' '', ''b'']) = Inl IndexOutOfRange"
  by (simp add: session_defs)

section \<open>The properties\<close>

text \<open>
  C1. The scan of \<open>Quit\<close> yields one verdict per space-delimited segment of the text,
  the last, unterminated one included: with every character covered by a status, the
  verdict list is the list of the segments' verdicts (a segment is \<open>Good\<close> when all
  its characters are), and it has one entry more than the text has spaces. For the text
  \<open>cat dog\<close> typed correctly the session ends with 2 good words (and 6 good
  characters); typed as \<open>cat dpg\<close> it ends with 1 good word and 3 good characters.
\<close>

theorem Quit_word_verdicts:
  "(length cs \<le> length inp \<longrightarrow>
      word_verdicts cs inp = Inr (map segment_verdict (space_segments (zip cs inp))) \<and>
      length (map segment_verdict (space_segments (zip cs inp))) = Suc (count_list cs CHR '' '')) \<and>
   run cat_dog (typing [''c'', ''a'', ''t'', '' '', ''d'', ''o'', ''g'']) =
     Inr (cat_dog\<lparr>inputs := [Good, Good, Good, Good, Good, Good, Good], current := 6,
            quitting := True, time := ticked_once,
            stats := Some (Sprintf 2 (1 / 1000) (Finite 72000) (Finite 100))\<rparr>) \<and>
   typed_counts (cat_dog\<lparr>inputs := [Good, Good, Good, Good, Good, Good, Good], current := 6,
      quitting := True, time := ticked_once,
      stats := Some (Sprintf 2 (1 / 1000) (Finite 72000) (Finite 100))\<rparr>) = Inr (6, 2) \<and>
   run cat_dog (typing [''c'', ''a'', ''t'', '' '', ''d'', ''p'', ''g'']) =
     Inr (cat_dog\<lparr>inputs := [Good, Good, Good, Good, Good, Bad, Good], current := 6,
            quitting := True, time := ticked_once,
            stats := Some (Sprintf 1 (1 / 1000) (Finite 36000) (Finite (250 / 3)))\<rparr>) \<and>
   typed_counts (cat_dog\<lparr>inputs := [Good, Good, Good, Good, Good, Bad, Good], current := 6,
      quitting := True, time := ticked_once,
      stats := Some (Sprintf 1 (1 / 1000) (Finite 36000) (Finite (250 / 3)))\<rparr>) = Inr (3, 1)"
proof -
  have "length cs \<le> length inp \<longrightarrow>
      word_verdicts cs inp = Inr (map segment_verdict (space_segments (zip cs inp))) \<and>
      length (map segment_verdict (space_segments (zip cs inp))) = Suc (count_list cs CHR '' '')"
  proof
    assume le: "length cs \<le> length inp"
    have wv: "word_verdicts cs inp = Inr (map segment_verdict (space_segments (zip cs inp)))"
      using le by (rule word_verdicts_segments)
    show "word_verdicts cs inp = Inr (map segment_verdict (space_segments (zip cs inp))) \<and>
      length (map segment_verdict (space_segments (zip cs inp))) = Suc (count_list cs CHR '' '')"
      using wv length_word_verdicts [OF le wv] by simp
  qed
  then show ?thesis
    using run_cat_dog typed_counts_cat_dog run_cat_dpg typed_counts_cat_dpg by blast
qed

theorem Quit_word_verdicts_witness:
  "length ''ab cd'' \<le> length [Good, Good, Good, Bad, Good] \<and>
   word_verdicts ''ab cd'' [Good, Good, Good, Bad, Good] = Inr [Good, Bad]"
proof -
  have le: "length ''ab cd'' \<le> length [Good, Good, Good, Bad, Good]" by simp
  have "word_verdicts ''ab cd'' [Good, Good, Good, Bad, Good] =
      Inr (map segment_verdict (space_segments (zip ''ab cd'' [Good, Good, Good, Bad, Good])))"
    using Quit_word_verdicts [of "''ab cd''" "[Good, Good, Good, Bad, Good]"] le by blast
  then show ?thesis
    by (simp add: segment_verdict_def)
qed

text \<open>
  C2, as the code has it. Both ways of ending a session go through \<open>Quit\<close> and
  return \<open>tea.Quit\<close>: an abort key at once, an accepted keystroke at the final
  index after marking it. \<open>Quit\<close> always sets the flag, but it computes a summary
  only when the stopwatch is running: on a well-formed model with a running stopwatch
  the summary is \<open>summary_of\<close>; with a stopwatch that is not running only the flag
  changes. So an abort before any keystroke sets the flag and leaves the summary empty.
\<close>

theorem end_of_session_summary:
  "(key = ''ctrl+c'' \<or> key = ''esc'' \<longrightarrow>
      Update m (KeyMsg key) =
        (case Quit m of Inl e \<Rightarrow> Inl e | Inr m' \<Rightarrow> Inr (m', tea_Quit))) \<and>
   (accepted (KeyMsg key) \<and> cursor_ok m \<and> current m = length (chars m) - 1 \<longrightarrow>
      Update m (KeyMsg key) =
        (case Quit (m\<lparr>inputs := (inputs m)[current m :=
                        (if [chars m ! current m] = key then Good else Bad)]\<rparr>) of
           Inl e \<Rightarrow> Inl e
         | Inr m' \<Rightarrow> Inr (m', tea_Quit))) \<and>
   (\<not> Running (time m) \<longrightarrow> Quit m = Inr (m\<lparr>quitting := True\<rparr>)) \<and>
   (Running (time m) \<and> wf_Model m \<longrightarrow>
      Quit m = Inr (m\<lparr>quitting := True, stats := Some (summary_of m)\<rparr>)) \<and>
   (NewModel wrap ts nid ws = Inr m0 \<and> (key = ''ctrl+c'' \<or> key = ''esc'') \<longrightarrow>
      Update m0 (KeyMsg key) = Inr (m0\<lparr>quitting := True\<rparr>, tea_Quit) \<and>
      stats (m0\<lparr>quitting := True\<rparr>) = None)"
proof -
  have "NewModel wrap ts nid ws = Inr m0 \<and> (key = ''ctrl+c'' \<or> key = ''esc'') \<longrightarrow>
      Update m0 (KeyMsg key) = Inr (m0\<lparr>quitting := True\<rparr>, tea_Quit) \<and>
      stats (m0\<lparr>quitting := True\<rparr>) = None"
  proof
    assume a: "NewModel wrap ts nid ws = Inr m0 \<and> (key = ''ctrl+c'' \<or> key = ''esc'')"
    then have nr: "\<not> Running (time m0)" and st: "stats m0 = None"
      using NewModel_fields [of wrap ts nid ws m0] by simp_all
    have "Quit m0 = Inr (m0\<lparr>quitting := True\<rparr>)"
      using nr by (rule Quit_not_running)
    then have "Update m0 (KeyMsg key) = Inr (m0\<lparr>quitting := True\<rparr>, tea_Quit)"
      using a Update_abort [of key m0] by simp
    then show "Update m0 (KeyMsg key) = Inr (m0\<lparr>quitting := True\<rparr>, tea_Quit) \<and>
      stats (m0\<lparr>quitting := True\<rparr>) = None"
      using st by simp
  qed
  moreover have "key = ''ctrl+c'' \<or> key = ''esc'' \<longrightarrow>
      Update m (KeyMsg key) =
        (case Quit m of Inl e \<Rightarrow> Inl e | Inr m' \<Rightarrow> Inr (m', tea_Quit))"
    using Update_abort [of key m] by (rule impI)
  moreover have "accepted (KeyMsg key) \<and> cursor_ok m \<and> current m = length (chars m) - 1 \<longrightarrow>
      Update m (KeyMsg key) =
        (case Quit (m\<lparr>inputs := (inputs m)[current m :=
                        (if [chars m ! current m] = key then Good else Bad)]\<rparr>) of
           Inl e \<Rightarrow> Inl e
         | Inr m' \<Rightarrow> Inr (m', tea_Quit))"
    using Update_accepted_last [of key m] by (intro impI) (elim conjE)
  moreover have "\<not> Running (time m) \<longrightarrow> Quit m = Inr (m\<lparr>quitting := True\<rparr>)"
    using Quit_not_running [of m] by (rule impI)
  moreover have "Running (time m) \<and> wf_Model m \<longrightarrow>
      Quit m = Inr (m\<lparr>quitting := True, stats := Some (summary_of m)\<rparr>)"
    using Quit_wf [of m] by (intro impI) (elim conjE)
  ultimately show ?thesis by (intro conjI)
qed

theorem end_of_session_summary_witness:
  "Update (cat_dog\<lparr>inputs := [Good, Good, Good, Neutral, Neutral, Neutral, Neutral],
             current := 3, time := ticked_once\<rparr>) (KeyMsg ''esc'') =
     Inr (cat_dog\<lparr>inputs := [Good, Good, Good, Neutral, Neutral, Neutral, Neutral],
            current := 3, quitting := True, time := ticked_once,
            stats := Some (Sprintf 1 (1 / 1000) (Finite 36000) (Finite 100))\<rparr>, tea_Quit) \<and>
   Update (cat_dog\<lparr>inputs := [Good, Good, Good, Good, Good, Good, Neutral],
             current := 6, time := ticked_once\<rparr>) (KeyMsg ''g'') =
     Inr (cat_dog\<lparr>inputs := [Good, Good, Good, Good, Good, Good, Good], current := 6,
            quitting := True, time := ticked_once,
            stats := Some (Sprintf 2 (1 / 1000) (Finite 72000) (Finite 100))\<rparr>, tea_Quit) \<and>
   Quit cat_dog = Inr (cat_dog\<lparr>quitting := True\<rparr>) \<and>
   Update cat_dog (KeyMsg ''esc'') = Inr (cat_dog\<lparr>quitting := True\<rparr>, tea_Quit) \<and>
   stats (cat_dog\<lparr>quitting := True\<rparr>) = None"
proof -
  let ?m = "cat_dog\<lparr>inputs := [Good, Good, Good, Neutral, Neutral, Neutral, Neutral],
             current := 3, time := ticked_once\<rparr>"
  let ?l = "cat_dog\<lparr>inputs := [Good, Good, Good, Good, Good, Good, Neutral],
             current := 6, time := ticked_once\<rparr>"
  have r: "Running (time ?m) \<and> wf_Model ?m"
    by (simp add: Running_def ticked_once_def wf_Model_def cursor_ok_def cat_dog_def fresh_def)
  have e: "''esc'' = ''ctrl+c'' \<or> ''esc'' = ''esc''" by simp
  have q: "Quit ?m = Inr (?m\<lparr>quitting := True, stats := Some (summary_of ?m)\<rparr>)"
    using end_of_session_summary
      [of "''esc''" ?m, THEN conjunct2, THEN conjunct2, THEN conjunct2, THEN conjunct1] r
    by (rule mp)
  have u: "Update ?m (KeyMsg ''esc'') =
      (case Quit ?m of Inl e \<Rightarrow> Inl e | Inr m' \<Rightarrow> Inr (m', tea_Quit))"
    using end_of_session_summary [of "''esc''" ?m, THEN conjunct1] e by (rule mp)
  have s: "summary_of ?m = Sprintf 1 (1 / 1000) (Finite 36000) (Finite 100)"
    by (simp add: summary_of_def cat_dog_def fresh_def good_words_def segment_verdict_def
        status_sum_take ticked_once_def Elapsed_def Minutes_def Seconds_def float64_div_def)
  have first: "Update ?m (KeyMsg ''esc'') =
     Inr (cat_dog\<lparr>inputs := [Good, Good, Good, Neutral, Neutral, Neutral, Neutral],
            current := 3, quitting := True, time := ticked_once,
            stats := Some (Sprintf 1 (1 / 1000) (Finite 36000) (Finite 100))\<rparr>, tea_Quit)"
    using u q s by (simp add: cat_dog_def fresh_def)
  have a: "accepted (KeyMsg ''g'') \<and> cursor_ok ?l \<and> current ?l = length (chars ?l) - 1"
    by (simp add: ok_inputs_def cursor_ok_def cat_dog_def fresh_def)
  have "Update ?l (KeyMsg ''g'') =
        (case Quit (?l\<lparr>inputs := (inputs ?l)[current ?l :=
                        (if [chars ?l ! current ?l] = ''g'' then Good else Bad)]\<rparr>) of
           Inl e \<Rightarrow> Inl e
         | Inr m' \<Rightarrow> Inr (m', tea_Quit))"
    using end_of_session_summary [of "''g''" ?l, THEN conjunct2, THEN conjunct1] a
    by (rule mp)
  then have second: "Update ?l (KeyMsg ''g'') =
     Inr (cat_dog\<lparr>inputs := [Good, Good, Good, Good, Good, Good, Good], current := 6,
            quitting := True, time := ticked_once,
            stats := Some (Sprintf 2 (1 / 1000) (Finite 72000) (Finite 100))\<rparr>, tea_Quit)"
    by (simp add: cat_dog_def session_defs)
  have n: "\<not> Running (time cat_dog)"
    by (simp add: cat_dog_def fresh_def Running_def stopwatch_NewWithInterval_def)
  have third: "Quit cat_dog = Inr (cat_dog\<lparr>quitting := True\<rparr>)"
    using end_of_session_summary
      [of "''esc''" cat_dog, THEN conjunct2, THEN conjunct2, THEN conjunct1] n
    by (rule mp)
  have "Update cat_dog (KeyMsg ''esc'') = Inr (cat_dog\<lparr>quitting := True\<rparr>, tea_Quit) \<and>
      stats (cat_dog\<lparr>quitting := True\<rparr>) = None"
    using end_of_session_summary [of "''esc''" cat_dog wordwrap_String "Some 80" 1
        "[''cat'', ''dog'']" cat_dog, THEN conjunct2, THEN conjunct2, THEN conjunct2,
        THEN conjunct2] conjI [OF NewModel_cat_dog e]
    by (rule mp)
  then show ?thesis using first second third by (intro conjI) simp_all
qed

text \<open>
  C2 as stated fails on a new model: the escape key ends the session with the flag set
  and the summary still empty.
\<close>

theorem abort_before_typing_counterexample:
  "NewModel wordwrap_String (Some 80) 1 [''cat'', ''dog''] = Inr cat_dog \<and>
   Update cat_dog (KeyMsg ''esc'') = Inr (cat_dog\<lparr>quitting := True\<rparr>, tea_Quit) \<and>
   quitting (cat_dog\<lparr>quitting := True\<rparr>) \<and>
   stats (cat_dog\<lparr>quitting := True\<rparr>) = None"
proof -
  have "Update cat_dog (KeyMsg ''esc'') = Inr (cat_dog\<lparr>quitting := True\<rparr>, tea_Quit)"
    by (simp add: cat_dog_def session_defs)
  then show ?thesis
    using NewModel_cat_dog by (simp add: cat_dog_def fresh_def)
qed

text \<open>
  C3, as the code has it. The cursor of a new model is 0. Along any sequence of
  messages it never decreases: a message moves it on by exactly one when it is an
  accepted keystroke and the cursor is below the final index \<open>len(chars) - 1\<close>, and
  leaves it alone otherwise. The accepted keystroke at the final index ends the session
  without moving the cursor, so after \<open>n\<close> accepted keystrokes the cursor is the
  smaller of \<open>n\<close> and \<open>len(chars) - 1\<close>, and \<open>len(chars) - 1\<close> is its value
  when the whole text has been typed.
\<close>

theorem cursor_progress:
  assumes new: "NewModel wrap ts nid ws = Inr m0" and run: "run m0 msgs = Inr m"
  shows "current m0 = 0 \<and>
         current m = min (length (filter accepted msgs)) (length (chars m0) - 1) \<and>
         (\<forall>msg m' cmd. Update m msg = Inr (m', cmd) \<longrightarrow>
            current m' =
              (if accepted msg \<and> current m < length (chars m0) - 1 then current m + 1
               else current m))"
proof -
  have ok0: "cursor_ok m0" and c0: "current m0 = 0"
    using NewModel_fields [OF new] by simp_all
  have r: "cursor_ok m \<and> chars m = chars m0 \<and> words m = words m0 \<and>
   current m = min (current m0 + length (filter accepted msgs)) (length (chars m0) - 1)"
    using run_current [OF ok0 run] .
  have "\<forall>msg m' cmd. Update m msg = Inr (m', cmd) \<longrightarrow>
            current m' =
              (if accepted msg \<and> current m < length (chars m0) - 1 then current m + 1
               else current m)"
    using Update_current [of m] r by fastforce
  then show ?thesis using c0 r by simp
qed

theorem cursor_progress_witness:
  "NewModel wordwrap_String (Some 80) 1 [''cat'', ''dog''] = Inr cat_dog \<and>
   run cat_dog (typing [''c'', ''a'', ''t'']) =
     Inr (cat_dog\<lparr>inputs := [Good, Good, Good, Neutral, Neutral, Neutral, Neutral],
            current := 3, time := ticked_once\<rparr>) \<and>
   current cat_dog = 0 \<and>
   current (cat_dog\<lparr>inputs := [Good, Good, Good, Neutral, Neutral, Neutral, Neutral],
            current := 3, time := ticked_once\<rparr>) =
     min (length (filter accepted (typing [''c'', ''a'', ''t'']))) (length (chars cat_dog) - 1)"
  using cursor_progress [OF NewModel_cat_dog run_cat] NewModel_cat_dog run_cat by blast

text \<open>
  C3 as stated fails on the text \<open>ab\<close>: both keys are accepted and marked
  \<open>Good\<close>, the session ends, and the cursor is 1, not the length 2 of the text.
\<close>

theorem cursor_terminal_counterexample:
  "NewModel wordwrap_String (Some 80) 1 [''ab''] = Inr (fresh ''ab'' [''ab'']) \<and>
   run (fresh ''ab'' [''ab'']) (typing [''a'', ''b'']) =
     Inr ((fresh ''ab'' [''ab''])\<lparr>inputs := [Good, Good], current := 1, quitting := True,
            time := ticked_once,
            stats := Some (Sprintf 1 (1 / 1000) (Finite 24000) (Finite 100))\<rparr>) \<and>
   length (chars ((fresh ''ab'' [''ab''])\<lparr>inputs := [Good, Good], current := 1, quitting := True,
            time := ticked_once,
            stats := Some (Sprintf 1 (1 / 1000) (Finite 24000) (Finite 100))\<rparr>)) = 2 \<and>
   current ((fresh ''ab'' [''ab''])\<lparr>inputs := [Good, Good], current := 1, quitting := True,
            time := ticked_once,
            stats := Some (Sprintf 1 (1 / 1000) (Finite 24000) (Finite 100))\<rparr>) \<noteq>
   length (chars ((fresh ''ab'' [''ab''])\<lparr>inputs := [Good, Good], current := 1, quitting := True,
            time := ticked_once,
            stats := Some (Sprintf 1 (1 / 1000) (Finite 24000) (Finite 100))\<rparr>))"
proof -
  have "NewModel wordwrap_String (Some 80) 1 [''ab''] = Inr (fresh ''ab'' [''ab''])"
    by (simp add: NewModel_def fresh_def wordwrap_defs)
  moreover have "run (fresh ''ab'' [''ab'']) (typing [''a'', ''b'']) =
     Inr ((fresh ''ab'' [''ab''])\<lparr>inputs := [Good, Good], current := 1, quitting := True,
            time := ticked_once,
            stats := Some (Sprintf 1 (1 / 1000) (Finite 24000) (Finite 100))\<rparr>)"
    by (simp add: session_defs)
  ultimately show ?thesis by (simp add: fresh_def)
qed

text \<open>
  C4 fails on the code when the text is wrapped. The words \<open>hello\<close> and \<open>world\<close>
  on a terminal 10 columns wide give the text \<open>hello\<close>, newline, \<open>world\<close>: the
  writer puts the newline in the place of the space. The text has no space left, so
  the scan yields a single verdict for two words; no accepted key matches the newline,
  so that verdict is \<open>Bad\<close> even when every letter is typed correctly, and the
  session ends with 0 good words.
\<close>

theorem wrapped_text_merges_words:
  "NewModel wordwrap_String (Some 10) 1 [''hello'', ''world''] =
     Inr (fresh ''hello\<newline>world'' [''hello'', ''world'']) \<and>
   run (fresh ''hello\<newline>world'' [''hello'', ''world''])
     (typing [''h'', ''e'', ''l'', ''l'', ''o'', '' '', ''w'', ''o'', ''r'', ''l'', ''d'']) =
   Inr ((fresh ''hello\<newline>world'' [''hello'', ''world''])
          \<lparr>inputs := [Good, Good, Good, Good, Good, Bad, Good, Good, Good, Good, Good],
           current := 10, quitting := True, time := ticked_once,
           stats := Some (Sprintf 0 (1 / 1000) (Finite 0) (Finite 90))\<rparr>) \<and>
   word_verdicts ''hello\<newline>world''
     [Good, Good, Good, Good, Good, Bad, Good, Good, Good, Good, Good] = Inr [Bad] \<and>
   length [Bad] \<noteq> length [''hello'', ''world'']"
proof -
  have "word_verdicts ''hello\<newline>world''
     [Good, Good, Good, Good, Good, Bad, Good, Good, Good, Good, Good] = Inr [Bad]"
    by (simp add: word_verdicts_def)
  then show ?thesis
    using NewModel_hello_world run_hello_world by simp
qed

text \<open>
  C5. An accepted keystroke on a well-formed model marks the position under the cursor:
  \<open>Good\<close> when the key is the character there, \<open>Bad\<close> otherwise. At the final
  index the same call of \<open>Update\<close> runs \<open>Quit\<close> on the marked model and returns
  \<open>tea.Quit\<close>, with the cursor left where it is; anywhere else the cursor moves on
  by one and the command returned is not \<open>tea.Quit\<close>. In both cases \<open>Update\<close>
  returns a model.
\<close>

theorem Update_accepted_key:
  assumes acc: "accepted (KeyMsg key)" and wf: "wf_Model m"
  shows "\<exists>m' cmd. Update m (KeyMsg key) = Inr (m', cmd) \<and>
           inputs m' = (inputs m)[current m :=
                          (if [chars m ! current m] = key then Good else Bad)] \<and>
           (if current m = length (chars m) - 1
            then cmd = tea_Quit \<and> quitting m' \<and> current m' = current m \<and>
                 Quit (m\<lparr>inputs := (inputs m)[current m :=
                          (if [chars m ! current m] = key then Good else Bad)]\<rparr>) = Inr m'
            else cmd \<noteq> tea_Quit \<and> current m' = current m + 1 \<and>
                 quitting m' = quitting m \<and> stats m' = stats m)"
  using acc wf by (rule Update_accepted_wf)

theorem Update_accepted_key_witness:
  "accepted (KeyMsg ''c'') \<and> wf_Model cat_dog \<and>
   (\<exists>m' cmd. Update cat_dog (KeyMsg ''c'') = Inr (m', cmd) \<and>
      inputs m' = [Good, Neutral, Neutral, Neutral, Neutral, Neutral, Neutral] \<and>
      cmd \<noteq> tea_Quit \<and> current m' = 1 \<and> \<not> quitting m' \<and> stats m' = None)"
proof -
  have a: "accepted (KeyMsg ''c'')" by (simp add: ok_inputs_def)
  have "\<exists>m' cmd. Update cat_dog (KeyMsg ''c'') = Inr (m', cmd) \<and>
           inputs m' = (inputs cat_dog)[current cat_dog :=
                          (if [chars cat_dog ! current cat_dog] = ''c'' then Good else Bad)] \<and>
           (if current cat_dog = length (chars cat_dog) - 1
            then cmd = tea_Quit \<and> quitting m' \<and> current m' = current cat_dog \<and>
                 Quit (cat_dog\<lparr>inputs := (inputs cat_dog)[current cat_dog :=
                          (if [chars cat_dog ! current cat_dog] = ''c'' then Good else Bad)]\<rparr>) = Inr m'
            else cmd \<noteq> tea_Quit \<and> current m' = current cat_dog + 1 \<and>
                 quitting m' = quitting cat_dog \<and> stats m' = stats cat_dog)"
    using Update_accepted_key [OF a wf_cat_dog] .
  then have "\<exists>m' cmd. Update cat_dog (KeyMsg ''c'') = Inr (m', cmd) \<and>
      inputs m' = [Good, Neutral, Neutral, Neutral, Neutral, Neutral, Neutral] \<and>
      cmd \<noteq> tea_Quit \<and> current m' = 1 \<and> \<not> quitting m' \<and> stats m' = None"
    by (simp add: cat_dog_def fresh_def)
  then show ?thesis using a wf_cat_dog by blast
qed

text \<open>
  C6. \<open>Quit\<close> is idempotent: when a call returns a model, a second call on that model
  returns the very same model, so the summary is the same, nothing is counted twice, and
  the second call does not fail. On a well-formed model the first call does return.
\<close>

theorem Quit_idempotent:
  "(Quit m = Inr m1 \<longrightarrow> Quit m1 = Inr m1) \<and>
   (wf_Model m \<longrightarrow> (\<exists>m1. Quit m = Inr m1 \<and> Quit m1 = Inr m1))"
proof -
  have "Quit m = Inr m1 \<longrightarrow> Quit m1 = Inr m1"
    using Quit_twice [of m m1] by (rule impI)
  moreover have "wf_Model m \<longrightarrow> (\<exists>m1. Quit m = Inr m1 \<and> Quit m1 = Inr m1)"
  proof
    assume "wf_Model m"
    then obtain m2 where q: "Quit m = Inr m2" using Quit_total by blast
    then have "Quit m2 = Inr m2" by (rule Quit_twice)
    then show "\<exists>m1. Quit m = Inr m1 \<and> Quit m1 = Inr m1" using q by blast
  qed
  ultimately show ?thesis by (rule conjI)
qed

theorem Quit_idempotent_witness:
  "Quit (cat_dog\<lparr>inputs := [Good, Good, Good, Good, Good, Bad, Neutral], current := 6,
           time := ticked_once\<rparr>) =
     Inr (cat_dog\<lparr>inputs := [Good, Good, Good, Good, Good, Bad, Neutral], current := 6,
            quitting := True, time := ticked_once,
            stats := Some (Sprintf 1 (1 / 1000) (Finite 36000) (Finite (250 / 3)))\<rparr>) \<and>
   Quit (cat_dog\<lparr>inputs := [Good, Good, Good, Good, Good, Bad, Neutral], current := 6,
            quitting := True, time := ticked_once,
            stats := Some (Sprintf 1 (1 / 1000) (Finite 36000) (Finite (250 / 3)))\<rparr>) =
     Inr (cat_dog\<lparr>inputs := [Good, Good, Good, Good, Good, Bad, Neutral], current := 6,
            quitting := True, time := ticked_once,
            stats := Some (Sprintf 1 (1 / 1000) (Finite 36000) (Finite (250 / 3)))\<rparr>)"
proof -
  have h: "Quit (cat_dog\<lparr>inputs := [Good, Good, Good, Good, Good, Bad, Neutral], current := 6,
           time := ticked_once\<rparr>) =
     Inr (cat_dog\<lparr>inputs := [Good, Good, Good, Good, Good, Bad, Neutral], current := 6,
            quitting := True, time := ticked_once,
            stats := Some (Sprintf 1 (1 / 1000) (Finite 36000) (Finite (250 / 3)))\<rparr>)"
    by (simp add: cat_dog_def session_defs)
  show ?thesis
    using h Quit_idempotent [THEN conjunct1, THEN mp, OF h] by (rule conjI)
qed

text \<open>
  C7. On a well-formed model with a running stopwatch \<open>Quit\<close> returns a summary whose
  accuracy is the sum of the status values (\<open>Good\<close> 1, \<open>Bad\<close> 0, \<open>Neutral\<close>
  -1) over the indices below the cursor, divided by the cursor, times 100; with a cursor
  at 0 the division is 0/0. With the cursor at 10 over 8 \<open>Good\<close> and 2 \<open>Bad\<close>
  statuses the accuracy is 80.
\<close>

theorem accuracy_formula:
  assumes run: "Running (time m)" and wf: "wf_Model m"
  shows "\<exists>m' s. Quit m = Inr m' \<and> stats m' = Some s \<and>
           summary_accuracy s =
             float64_scale
               (float64_div (\<Sum>i<current m. real_of_int (Status_int (inputs m ! i)))
                  (real (current m))) 100 \<and>
           (0 < current m \<longrightarrow>
              summary_accuracy s =
                Finite ((\<Sum>i<current m. real_of_int (Status_int (inputs m ! i)))
                          / real (current m) * 100)) \<and>
           Status_int Good = 1 \<and> Status_int Bad = 0 \<and> Status_int Neutral = - 1"
proof -
  obtain m' where q: "Quit m = Inr m'" and s: "stats m' = Some (summary_of m)"
    using Quit_summary [OF run wf] by blast
  have a: "summary_accuracy (summary_of m) =
             float64_scale
               (float64_div (\<Sum>i<current m. real_of_int (Status_int (inputs m ! i)))
                  (real (current m))) 100"
    by (simp add: summary_of_accuracy status_sum_def)
  have "0 < current m \<longrightarrow>
              summary_accuracy (summary_of m) =
                Finite ((\<Sum>i<current m. real_of_int (Status_int (inputs m ! i)))
                          / real (current m) * 100)"
    by (simp add: a float64_div_def)
  then show ?thesis using q s a by simp
qed

theorem accuracy_formula_witness:
  "Running (time (typing_test\<lparr>inputs := [Good, Good, Bad, Good, Good, Good, Good, Good, Bad,
       Good, Neutral], current := 10, time := ticked_once\<rparr>)) \<and>
   wf_Model (typing_test\<lparr>inputs := [Good, Good, Bad, Good, Good, Good, Good, Good, Bad,
       Good, Neutral], current := 10, time := ticked_once\<rparr>) \<and>
   (\<exists>m' s. Quit (typing_test\<lparr>inputs := [Good, Good, Bad, Good, Good, Good, Good, Good, Bad,
       Good, Neutral], current := 10, time := ticked_once\<rparr>) = Inr m' \<and>
      stats m' = Some s \<and> summary_accuracy s = Finite 80)"
proof -
  let ?m = "typing_test\<lparr>inputs := [Good, Good, Bad, Good, Good, Good, Good, Good, Bad,
       Good, Neutral], current := 10, time := ticked_once\<rparr>"
  have r: "Running (time ?m)" by (simp add: Running_def ticked_once_def)
  have w: "wf_Model ?m"
    by (simp add: wf_Model_def cursor_ok_def typing_test_def fresh_def)
  have sum8: "(\<Sum>i<current ?m. real_of_int (Status_int (inputs ?m ! i))) = 8"
    using status_sum_take [of "current ?m" "inputs ?m"] by (simp add: status_sum_def)
  have "\<exists>m' s. Quit ?m = Inr m' \<and> stats m' = Some s \<and> summary_accuracy s = Finite 80"
    using accuracy_formula [OF r w] unfolding sum8 by auto
  then show ?thesis using r w by (intro conjI)
qed

text \<open>
  C8. On a well-formed model with a running stopwatch \<open>Quit\<close> returns a summary whose
  words per minute are the good character count divided by five times the elapsed
  minutes, that is, divided by 5 and then by the minutes when some time has elapsed. The
  good character count is the sum of the lengths of the words of the word list whose
  verdict is \<open>Good\<close>. A count of 25 after one minute gives 5.
\<close>

theorem wpm_formula:
  assumes run: "Running (time m)" and wf: "wf_Model m"
  shows "\<exists>m' s typed. Quit m = Inr m' \<and> stats m' = Some s \<and>
           word_verdicts (chars m) (inputs m) = Inr typed \<and>
           typed_counts m =
             Inr (sum_list (map length (good_words typed (words m))),
                  length (good_words typed (words m))) \<and>
           summary_wpm s =
             float64_div (real (sum_list (map length (good_words typed (words m)))))
               (5 * Minutes (Elapsed (time m))) \<and>
           (0 < Elapsed (time m) \<longrightarrow>
              summary_wpm s =
                Finite (real (sum_list (map length (good_words typed (words m)))) / 5
                          / Minutes (Elapsed (time m)))) \<and>
           (sum_list (map length (good_words typed (words m))) = 25 \<and>
            Minutes (Elapsed (time m)) = 1 \<longrightarrow> summary_wpm s = Finite 5)"
proof -
  let ?typed = "map segment_verdict (space_segments (zip (chars m) (inputs m)))"
  let ?n = "sum_list (map length (good_words ?typed (words m)))"
  have len: "length (chars m) \<le> length (inputs m)"
    and sp: "count_list (chars m) CHR '' '' < length (words m)"
    using wf by (simp_all add: wf_Model_def cursor_ok_def)
  obtain m' where q: "Quit m = Inr m'" and s: "stats m' = Some (summary_of m)"
    using Quit_summary [OF run wf] by blast
  have wv: "word_verdicts (chars m) (inputs m) = Inr ?typed"
    using len by (rule word_verdicts_segments)
  have tc: "typed_counts m = Inr (?n, length (good_words ?typed (words m)))"
    using typed_counts_good_words [OF len sp] by (simp add: Let_def)
  have w: "summary_wpm (summary_of m) = float64_div (real ?n) (5 * Minutes (Elapsed (time m)))"
    by (rule summary_of_wpm)
  have pos: "0 < Elapsed (time m) \<longrightarrow>
      summary_wpm (summary_of m) = Finite (real ?n / 5 / Minutes (Elapsed (time m)))"
    by (simp add: w float64_div_def Minutes_def)
  have inst: "?n = 25 \<and> Minutes (Elapsed (time m)) = 1 \<longrightarrow>
      summary_wpm (summary_of m) = Finite 5"
    by (simp add: w float64_div_def)
  show ?thesis
    using q s wv tc w pos inst by (intro exI conjI)
qed

theorem wpm_formula_witness:
  "Running (time five_words) \<and> wf_Model five_words \<and>
   typed_counts five_words = Inr (25, 5) \<and>
   Minutes (Elapsed (time five_words)) = 1 \<and>
   (\<exists>m' s. Quit five_words = Inr m' \<and> stats m' = Some s \<and> summary_wpm s = Finite 5)"
proof -
  have r: "Running (time five_words)" by (simp add: five_words_def Running_def)
  have w: "wf_Model five_words"
    by (simp add: wf_Model_def cursor_ok_def five_words_def fresh_def)
  have mi: "Minutes (Elapsed (time five_words)) = 1"
    by (simp add: five_words_def Minutes_def Elapsed_def)
  have tc: "typed_counts five_words = Inr (25, 5)"
    by (simp add: five_words_def fresh_def typed_counts_def word_verdicts_def)
  have "\<exists>m' s. Quit five_words = Inr m' \<and> stats m' = Some s \<and> summary_wpm s = Finite 5"
    using wpm_formula [OF r w] unfolding tc mi by auto
  then show ?thesis using r w tc mi by (intro conjI)
qed

text \<open>
  C9. A key that is neither an abort key nor found in \<open>ok_inputs\<close> changes nothing:
  \<open>Update\<close> returns the model as it was (text, statuses, cursor, flag and summary,
  and the stopwatch as well) and no command. This holds in particular of every
  single-character key whose character is not one of \<open>ok_inputs\<close>.
\<close>

theorem Update_ignores_other_keys:
  "(key \<noteq> ''ctrl+c'' \<and> key \<noteq> ''esc'' \<and> \<not> strings_Contains ok_inputs key \<longrightarrow>
      Update m (KeyMsg key) = Inr (m, Cmd_nil)) \<and>
   (c \<notin> set ok_inputs \<longrightarrow> Update m (KeyMsg [c]) = Inr (m, Cmd_nil))"
proof -
  have "c \<notin> set ok_inputs \<Longrightarrow> Update m (KeyMsg [c]) = Inr (m, Cmd_nil)"
    by (rule Update_ignored) (simp_all add: strings_Contains_single)
  then show ?thesis
    using Update_ignored [of key m] by blast
qed

theorem Update_ignores_other_keys_witness:
  "Update cat_dog (KeyMsg ''enter'') = Inr (cat_dog, Cmd_nil) \<and>
   Update cat_dog (KeyMsg ''A'') = Inr (cat_dog, Cmd_nil)"
proof -
  have a: "''enter'' \<noteq> ''ctrl+c'' \<and> ''enter'' \<noteq> ''esc'' \<and>
      \<not> strings_Contains ok_inputs ''enter''"
    by (simp add: ok_inputs_def)
  have b: "CHR ''A'' \<notin> set ok_inputs"
    by (simp add: ok_inputs_def)
  show ?thesis
    using Update_ignores_other_keys [of "''enter''" cat_dog "CHR ''A''"] a b by blast
qed

text \<open>
  C10. Let the model be built from a non-empty list of words that have no space of their
  own, by a wrapping function that adds no space. Then its text has at most
  \<open>len(words) - 1\<close> spaces; for any statuses of the text's length the scan returns at
  most \<open>len(words)\<close> verdicts and the loop that reads \<open>m.words[index]\<close> stays in
  range; and every sequence of messages runs to a model without a panic.
\<close>

theorem words_index_in_range:
  assumes new: "NewModel wrap ts nid ws = Inr m0" and ne: "ws \<noteq> []"
    and sf: "space_free ws" and wr: "adds_no_space wrap"
  shows "spaces (chars m0) \<le> length ws - 1 \<and>
         (\<forall>inp. length inp = length (chars m0) \<longrightarrow>
            (\<exists>typed r. word_verdicts (chars m0) inp = Inr typed \<and>
               length typed \<le> length ws \<and> count_typed ws 0 typed 0 0 = Inr r)) \<and>
         (\<forall>msgs. \<exists>m. run m0 msgs = Inr m \<and> chars m = chars m0 \<and> words m = ws \<and>
            length (inputs m) = length (chars m0))"
proof -
  have wf: "wf_Model m0" and le: "spaces (chars m0) \<le> length ws - 1"
    using NewModel_wf [OF new ne sf wr] by simp_all
  have sp: "spaces (chars m0) < length ws"
    using le ne by (cases ws) simp_all
  have w0: "words m0 = ws" using NewModel_fields [OF new] by simp
  have a: "\<forall>inp. length inp = length (chars m0) \<longrightarrow>
            (\<exists>typed r. word_verdicts (chars m0) inp = Inr typed \<and>
               length typed \<le> length ws \<and> count_typed ws 0 typed 0 0 = Inr r)"
    using verdicts_in_range [OF _ sp] by blast
  have b: "\<forall>msgs. \<exists>m. run m0 msgs = Inr m \<and> chars m = chars m0 \<and> words m = ws \<and>
            length (inputs m) = length (chars m0)"
  proof
    fix msgs
    obtain m where r: "run m0 msgs = Inr m"
      using run_total [OF wf] by blast
    have ok: "cursor_ok m0" using wf by (simp add: wf_Model_def)
    have "cursor_ok m \<and> chars m = chars m0 \<and> words m = words m0"
      using run_current [OF ok r] by simp
    then show "\<exists>m. run m0 msgs = Inr m \<and> chars m = chars m0 \<and> words m = ws \<and>
            length (inputs m) = length (chars m0)"
      using r w0 by (auto simp: cursor_ok_def)
  qed
  show ?thesis using le a b by (intro conjI)
qed

theorem words_index_in_range_witness:
  "NewModel wordwrap_String (Some 10) 1 [''hello'', ''world''] =
     Inr (fresh ''hello\<newline>world'' [''hello'', ''world'']) \<and>
   [''hello'', ''world''] \<noteq> [] \<and> space_free [''hello'', ''world''] \<and>
   adds_no_space wordwrap_String \<and>
   spaces (chars (fresh ''hello\<newline>world'' [''hello'', ''world''])) \<le>
     length [''hello'', ''world''] - 1 \<and>
   (\<exists>typed r.
      word_verdicts (chars (fresh ''hello\<newline>world'' [''hello'', ''world'']))
        [Good, Good, Good, Good, Good, Bad, Good, Good, Good, Good, Good] = Inr typed \<and>
      length typed \<le> length [''hello'', ''world''] \<and>
      count_typed [''hello'', ''world''] 0 typed 0 0 = Inr r)"
proof -
  let ?ws = "[''hello'', ''world'']"
  let ?m0 = "fresh ''hello\<newline>world'' ?ws"
  let ?inp = "[Good, Good, Good, Good, Good, Bad, Good, Good, Good, Good, Good]"
  have ne: "?ws \<noteq> []" by simp
  have sf: "space_free ?ws" by (simp add: space_free_def)
  note th = words_index_in_range [OF NewModel_hello_world ne sf wordwrap_String_adds_no_space]
  have len: "length ?inp = length (chars ?m0)" by (simp add: fresh_def)
  have "\<exists>typed r. word_verdicts (chars ?m0) ?inp = Inr typed \<and>
      length typed \<le> length ?ws \<and> count_typed ?ws 0 typed 0 0 = Inr r"
    using th [THEN conjunct2, THEN conjunct1, rule_format, OF len] .
  then show ?thesis
    using NewModel_hello_world ne sf wordwrap_String_adds_no_space th [THEN conjunct1]
    by (intro conjI)
qed

end
